theory Spec2Isabelle
  imports Main "HOL-Library.Word" "HOL-Library.Signed_Division"
begin


section \<open>The logrus hook for Amazon CloudWatch Logs\<close>

text \<open>
  A shallow embedding of package \<open>cloudwatchhook\<close>: the hook structure, its constructor,
  the write path (\<open>Fire\<close>, \<open>Write\<close>), and the batching goroutines (\<open>putBatch\<close>,
  \<open>sendBatch\<close>). The AWS SDK and logrus are outside the package: the client's operations
  are parameters of the model, and every call made through the client is recorded.
\<close>

subsection \<open>Errors\<close>

text \<open>
  A Go \<open>error\<close> is a value with a message. \<open>ApiError\<close> stands for an error handed back by
  the SDK (or by logrus), \<open>ErrorString\<close> for one built by \<open>fmt.Errorf\<close>, which is a fresh
  value carrying formatted text.
\<close>

datatype error = ApiError string | ErrorString string

fun Error :: "error \<Rightarrow> string" where
  "Error (ApiError m) = m"
| "Error (ErrorString m) = m"

text \<open>\<open>fmt.Errorf(prefix + "%v", e)\<close>: the verb \<open>%v\<close> prints \<open>e.Error()\<close>.\<close>

definition Errorf :: "string \<Rightarrow> error \<Rightarrow> error" where
  "Errorf prefix e = ErrorString (prefix @ Error e)"

subsection \<open>SDK types\<close>

text \<open>
  Only the fields that the package reads or writes are kept. A Go string is a sequence of
  bytes, as \<open>string\<close> is here, so \<open>len\<close> is \<open>length\<close>. Pointers to strings that may be
  \<open>nil\<close> are \<open>string option\<close>; \<open>Message\<close> and \<open>Timestamp\<close> are always set by \<open>Write\<close>.
\<close>

record InputLogEvent =
  Message :: string
  Timestamp :: "64 word"

record PutLogEventsInput =
  LogEvents :: "InputLogEvent list"
  LogGroupName :: string
  LogStreamName :: string
  SequenceToken :: "string option"

record PutLogEventsOutput =
  NextSequenceToken :: "string option"

record LogGroup =
  group_LogGroupName :: "string option"

record DescribeLogGroupsInput =
  LogGroupNamePrefix :: string
  groups_NextToken :: "string option"

record DescribeLogGroupsOutput =
  LogGroups :: "LogGroup list"
  groups_out_NextToken :: "string option"

record CreateLogGroupInput =
  create_LogGroupName :: string
  Tags :: "(string \<rightharpoonup> string) option"
  KmsKeyId :: "string option"

record LogStream =
  stream_LogStreamName :: "string option"
  UploadSequenceToken :: "string option"

record DescribeLogStreamsInput =
  streams_LogGroupName :: string
  LogStreamNamePrefix :: string
  streams_NextToken :: "string option"

record DescribeLogStreamsOutput =
  LogStreams :: "LogStream list"
  streams_out_NextToken :: "string option"

record CreateLogStreamInput =
  cs_LogGroupName :: string
  cs_LogStreamName :: string

subsection \<open>The client and the record of its calls\<close>

text \<open>
  The service is a state \<open>'w\<close> that every operation may read and change; an operation
  returns an error or its output. Nothing is assumed about the operations.
\<close>

type_synonym ('i, 'o, 'w) operation = "'i \<Rightarrow> 'w \<Rightarrow> (error + 'o) \<times> 'w"

record 'w Client =
  op_DescribeLogGroups :: "(DescribeLogGroupsInput, DescribeLogGroupsOutput, 'w) operation"
  op_CreateLogGroup :: "(CreateLogGroupInput, unit, 'w) operation"
  op_DescribeLogStreams :: "(DescribeLogStreamsInput, DescribeLogStreamsOutput, 'w) operation"
  op_CreateLogStream :: "(CreateLogStreamInput, unit, 'w) operation"
  op_PutLogEvents :: "(PutLogEventsInput, PutLogEventsOutput, 'w) operation"

datatype request =
    ReqDescribeLogGroups DescribeLogGroupsInput
  | ReqCreateLogGroup CreateLogGroupInput
  | ReqDescribeLogStreams DescribeLogStreamsInput
  | ReqCreateLogStream CreateLogStreamInput
  | ReqPutLogEvents PutLogEventsInput

record 'w world =
  calls :: "request list"
  service :: "'w"

definition call :: "('i \<Rightarrow> request) \<Rightarrow> ('i, 'o, 'w) operation \<Rightarrow> 'i \<Rightarrow> 'w world
    \<Rightarrow> (error + 'o) \<times> 'w world" where
  "call tag oper inp w =
     (case oper inp (service w) of
        (r, s) \<Rightarrow> (r, \<lparr>calls = calls w @ [tag inp], service = s\<rparr>))"

definition DescribeLogGroups :: "'w Client \<Rightarrow> DescribeLogGroupsInput \<Rightarrow> 'w world
    \<Rightarrow> (error + DescribeLogGroupsOutput) \<times> 'w world" where
  "DescribeLogGroups c = call ReqDescribeLogGroups (op_DescribeLogGroups c)"

definition CreateLogGroup :: "'w Client \<Rightarrow> CreateLogGroupInput \<Rightarrow> 'w world
    \<Rightarrow> (error + unit) \<times> 'w world" where
  "CreateLogGroup c = call ReqCreateLogGroup (op_CreateLogGroup c)"

definition DescribeLogStreams :: "'w Client \<Rightarrow> DescribeLogStreamsInput \<Rightarrow> 'w world
    \<Rightarrow> (error + DescribeLogStreamsOutput) \<times> 'w world" where
  "DescribeLogStreams c = call ReqDescribeLogStreams (op_DescribeLogStreams c)"

definition CreateLogStream :: "'w Client \<Rightarrow> CreateLogStreamInput \<Rightarrow> 'w world
    \<Rightarrow> (error + unit) \<times> 'w world" where
  "CreateLogStream c = call ReqCreateLogStream (op_CreateLogStream c)"

definition PutLogEvents :: "'w Client \<Rightarrow> PutLogEventsInput \<Rightarrow> 'w world
    \<Rightarrow> (error + PutLogEventsOutput) \<times> 'w world" where
  "PutLogEvents c = call ReqPutLogEvents (op_PutLogEvents c)"

text \<open>The uploads among the recorded calls, in order.\<close>

fun uploads :: "request list \<Rightarrow> PutLogEventsInput list" where
  "uploads [] = []"
| "uploads (ReqPutLogEvents i # rs) = i # uploads rs"
| "uploads (_ # rs) = uploads rs"

subsection \<open>Channels and the mutex\<close>

text \<open>
  A buffered channel is a queue with a capacity. A send on a full channel and a receive on
  an empty one block: the operation has no result in that state (\<open>None\<close>) until another
  goroutine has moved. A \<open>nil\<close> channel is \<open>None\<close> in the hook.
\<close>

record 'a chan =
  buf :: "'a list"
  cap :: nat

definition make_chan :: "nat \<Rightarrow> 'a chan" where
  "make_chan n = \<lparr>buf = [], cap = n\<rparr>"

definition send :: "'a chan \<Rightarrow> 'a \<Rightarrow> 'a chan option" where
  "send c x = (if length (buf c) < cap c then Some (c\<lparr>buf := buf c @ [x]\<rparr>) else None)"

definition recv :: "'a chan \<Rightarrow> ('a \<times> 'a chan) option" where
  "recv c = (case buf c of [] \<Rightarrow> None | x # xs \<Rightarrow> Some (x, c\<lparr>buf := xs\<rparr>))"

subsection \<open>The hook\<close>

record 'w CloudWatchLogsHook =
  client :: "'w Client"
  group :: string
  stream :: string
  nextSequenceToken :: "string option"
  retentionDays :: int
  kmsKeyID :: string
  tags :: "string \<rightharpoonup> string"
  logFrequency :: int
  mutex :: bool
  ch :: "InputLogEvent chan option"
  err :: "error option"

text \<open>
  \<open>mutex\<close> is \<open>True\<close> while the \<open>sync.Mutex\<close> is held. \<open>Lock\<close> on a held mutex blocks
  (\<open>None\<close>); \<open>Unlock\<close> runs as the deferred call of the function that locked.
\<close>

definition Lock :: "'w CloudWatchLogsHook \<Rightarrow> 'w CloudWatchLogsHook option" where
  "Lock h = (if mutex h then None else Some (h\<lparr>mutex := True\<rparr>))"

definition Unlock :: "'w CloudWatchLogsHook \<Rightarrow> 'w CloudWatchLogsHook" where
  "Unlock h = h\<lparr>mutex := False\<rparr>"

subsection \<open>Write\<close>

text \<open>
  The timestamp is \<open>int64(time.Nanosecond) * time.Now().UnixNano() / int64(time.Millisecond)\<close>
  on \<open>int64\<close>: a wrapping product by 1, then a division that truncates towards zero.
  \<open>now\<close> is the clock's \<open>UnixNano()\<close>.
\<close>

definition timestamp_of :: "64 word \<Rightarrow> 64 word" where
  "timestamp_of now = word_of_int (sint (1 * now) sdiv 1000000)"

definition new_event :: "string \<Rightarrow> 64 word \<Rightarrow> InputLogEvent" where
  "new_event msg now = \<lparr>Message = msg, Timestamp = timestamp_of now\<rparr>"

definition upload_input :: "'w CloudWatchLogsHook \<Rightarrow> InputLogEvent list \<Rightarrow> PutLogEventsInput" where
  "upload_input h events =
     \<lparr>LogEvents = events, LogGroupName = group h, LogStreamName = stream h,
      SequenceToken = nextSequenceToken h\<rparr>"

text \<open>
  \<open>Write\<close> returns the pair \<open>(n, err)\<close> of the source, with the hook and the world as it
  leaves them. The result is \<open>None\<close> where the call cannot proceed in this state: the
  channel is full, or the mutex is held by another goroutine.
\<close>

definition Write :: "string \<Rightarrow> 64 word \<Rightarrow> 'w CloudWatchLogsHook \<times> 'w world
    \<Rightarrow> ((nat \<times> error option) \<times> 'w CloudWatchLogsHook \<times> 'w world) option" where
  "Write msg now hw =
     (case hw of (h, w) \<Rightarrow>
        let event = new_event msg now in
        (case ch h of
           Some c \<Rightarrow>
             (case send c event of
                None \<Rightarrow> None
              | Some c' \<Rightarrow>
                  let h1 = h\<lparr>ch := Some c'\<rparr> in
                  (case err h1 of
                     Some lastErr \<Rightarrow> Some ((0, Some (Errorf [] lastErr)), h1\<lparr>err := None\<rparr>, w)
                   | None \<Rightarrow> Some ((length msg, None), h1, w)))
         | None \<Rightarrow>
             (case Lock h of
                None \<Rightarrow> None
              | Some h1 \<Rightarrow>
                  (case PutLogEvents (client h1) (upload_input h1 [event]) w of
                     (Inl e, w') \<Rightarrow> Some ((0, Some e), Unlock h1, w')
                   | (Inr result, w') \<Rightarrow>
                       Some ((length msg, None),
                             Unlock (h1\<lparr>nextSequenceToken := NextSequenceToken result\<rparr>), w')))))"

subsection \<open>sendBatch\<close>

definition sendBatch :: "InputLogEvent list \<Rightarrow> 'w CloudWatchLogsHook \<times> 'w world
    \<Rightarrow> ('w CloudWatchLogsHook \<times> 'w world) option" where
  "sendBatch batch hw =
     (case hw of (h, w) \<Rightarrow>
        (case Lock h of
           None \<Rightarrow> None
         | Some h1 \<Rightarrow>
             if length batch = 0 then Some (Unlock h1, w)
             else
               (case PutLogEvents (client h1) (upload_input h1 batch) w of
                  (Inl e, w') \<Rightarrow> Some (Unlock (h1\<lparr>err := Some e\<rparr>), w')
                | (Inr result, w') \<Rightarrow>
                    Some (Unlock (h1\<lparr>nextSequenceToken := NextSequenceToken result\<rparr>), w'))))"

subsection \<open>putBatch\<close>

text \<open>
  One pass through the \<open>select\<close> of \<open>putBatch\<close>: either an event \<open>p\<close> came off the channel,
  or the ticker fired. The locals are the pair \<open>(batch, size)\<close>; the pass returns them with
  the batches it handed to \<open>go h.sendBatch\<close>. Sizes are Go \<open>int\<close>s (64 bits); a sum of
  lengths of strings held in memory does not reach \<open>2^63\<close>, so \<open>nat\<close> is exact.
\<close>

datatype selected = Received InputLogEvent | Ticked

type_synonym batcher = "InputLogEvent list \<times> nat"

fun putBatch_case :: "selected \<Rightarrow> batcher \<Rightarrow> batcher \<times> InputLogEvent list list" where
  "putBatch_case (Received p) (batch, sz) =
     (let messageSize = length (Message p) + 26 in
      case (if sz + messageSize > 1048576 \<or> length batch = 10000
            then ([], 0, [batch]) else (batch, sz, []))
      of (batch', sz', sent) \<Rightarrow> ((batch' @ [p], sz' + messageSize), sent))"
| "putBatch_case Ticked (batch, sz) = (([], 0), [batch])"

text \<open>
  The loop never ends; a run is the list of what its \<open>select\<close> chose, from the first pass
  on. \<open>putBatch_loop\<close> collects the batches handed to \<open>sendBatch\<close>, in order.
\<close>

fun putBatch_loop :: "selected list \<Rightarrow> batcher \<Rightarrow> batcher \<times> InputLogEvent list list" where
  "putBatch_loop [] st = (st, [])"
| "putBatch_loop (s # ss) st =
     (case putBatch_case s st of
        (st', sent) \<Rightarrow> (case putBatch_loop ss st' of (st'', sent') \<Rightarrow> (st'', sent @ sent')))"

definition putBatch :: "selected list \<Rightarrow> batcher \<times> InputLogEvent list list" where
  "putBatch ss = putBatch_loop ss ([], 0)"

text \<open>
  The receive of the \<open>select\<close> takes the event from the hook's channel; it is not ready
  while the channel is empty.
\<close>

definition receive_event :: "'w CloudWatchLogsHook \<Rightarrow> (InputLogEvent \<times> 'w CloudWatchLogsHook) option" where
  "receive_event h =
     (case ch h of
        None \<Rightarrow> None
      | Some c \<Rightarrow> (case recv c of None \<Rightarrow> None | Some (p, c') \<Rightarrow> Some (p, h\<lparr>ch := Some c'\<rparr>)))"


subsection \<open>Finding and creating the log group and the log stream\<close>

text \<open>\<open>aws.ToString\<close>: the string a pointer refers to, or the empty string for \<open>nil\<close>.\<close>

definition ToString :: "string option \<Rightarrow> string" where
  "ToString p = (case p of None \<Rightarrow> [] | Some s \<Rightarrow> s)"

text \<open>
  The loops of \<open>findLogGroup\<close> and \<open>findLogStream\<close> follow the service's
  continuation token and end only when the service returns none, so they are partial:
  \<open>None\<close> is a call that does not return. The inner \<open>range\<close> loop returns the first
  element with the hook's name.
\<close>

partial_function (option) findLogGroup_loop :: "'w CloudWatchLogsHook \<Rightarrow> string option
    \<Rightarrow> 'w world \<Rightarrow> ((error + LogGroup option) \<times> 'w world) option" where
  "findLogGroup_loop h nextToken w =
     (case DescribeLogGroups (client h)
             \<lparr>LogGroupNamePrefix = group h, groups_NextToken = nextToken\<rparr> w of
        (Inl e, w') \<Rightarrow> Some (Inl e, w')
      | (Inr result, w') \<Rightarrow>
          (case find (\<lambda>g. ToString (group_LogGroupName g) = group h) (LogGroups result) of
             Some g \<Rightarrow> Some (Inr (Some g), w')
           | None \<Rightarrow>
               (let nextToken' = groups_out_NextToken result in
                if nextToken' = None then Some (Inr None, w')
                else findLogGroup_loop h nextToken' w')))"

definition findLogGroup :: "'w CloudWatchLogsHook \<Rightarrow> 'w world
    \<Rightarrow> ((error + LogGroup option) \<times> 'w world) option" where
  "findLogGroup h w = findLogGroup_loop h None w"

partial_function (option) findLogStream_loop :: "'w CloudWatchLogsHook \<Rightarrow> string option
    \<Rightarrow> 'w world \<Rightarrow> ((error + LogStream option) \<times> 'w CloudWatchLogsHook \<times> 'w world) option" where
  "findLogStream_loop h nextToken w =
     (case DescribeLogStreams (client h)
             \<lparr>streams_LogGroupName = group h, LogStreamNamePrefix = stream h,
              streams_NextToken = nextToken\<rparr> w of
        (Inl e, w') \<Rightarrow> Some (Inl e, h, w')
      | (Inr result, w') \<Rightarrow>
          (case find (\<lambda>s. ToString (stream_LogStreamName s) = stream h) (LogStreams result) of
             Some s \<Rightarrow> Some (Inr (Some s), h\<lparr>nextSequenceToken := UploadSequenceToken s\<rparr>, w')
           | None \<Rightarrow>
               (let nextToken' = streams_out_NextToken result in
                if nextToken' = None then Some (Inr None, h, w')
                else findLogStream_loop h nextToken' w')))"

definition findLogStream :: "'w CloudWatchLogsHook \<Rightarrow> 'w world
    \<Rightarrow> ((error + LogStream option) \<times> 'w CloudWatchLogsHook \<times> 'w world) option" where
  "findLogStream h w = findLogStream_loop h None w"

text \<open>
  \<open>createLogGroup\<close> and \<open>createLogStream\<close> return the error (\<open>Some\<close>) or \<open>nil\<close>
  (\<open>None\<close>), inside the outer \<open>option\<close> of a call that may not return.
\<close>

definition createLogGroup :: "'w CloudWatchLogsHook \<Rightarrow> 'w world
    \<Rightarrow> (error option \<times> 'w world) option" where
  "createLogGroup h w =
     (case findLogGroup h w of
        None \<Rightarrow> None
      | Some (Inl e, w1) \<Rightarrow> Some (Some e, w1)
      | Some (Inr (Some g), w1) \<Rightarrow> Some (None, w1)
      | Some (Inr None, w1) \<Rightarrow>
          (let inp = \<lparr>create_LogGroupName = group h, Tags = None, KmsKeyId = None\<rparr>;
               inp = (if tags h \<noteq> Map.empty then inp\<lparr>Tags := Some (tags h)\<rparr> else inp);
               inp = (if kmsKeyID h \<noteq> [] then inp\<lparr>KmsKeyId := Some (kmsKeyID h)\<rparr> else inp)
           in case CreateLogGroup (client h) inp w1 of
                (Inl e, w2) \<Rightarrow> Some (Some e, w2)
              | (Inr _, w2) \<Rightarrow> Some (None, w2)))"

definition createLogStream :: "'w CloudWatchLogsHook \<Rightarrow> 'w world
    \<Rightarrow> (error option \<times> 'w CloudWatchLogsHook \<times> 'w world) option" where
  "createLogStream h w =
     (case findLogStream h w of
        None \<Rightarrow> None
      | Some (Inl e, h1, w1) \<Rightarrow> Some (Some e, h1, w1)
      | Some (Inr (Some s), h1, w1) \<Rightarrow> Some (None, h1, w1)
      | Some (Inr None, h1, w1) \<Rightarrow>
          (case CreateLogStream (client h1)
                  \<lparr>cs_LogGroupName = group h1, cs_LogStreamName = stream h1\<rparr> w1 of
             (Inl e, w2) \<Rightarrow> Some (Some e, h1, w2)
           | (Inr _, w2) \<Rightarrow>
               (case findLogStream h1 w2 of
                  None \<Rightarrow> None
                | Some (Inl e, h2, w3) \<Rightarrow> Some (Some e, h2, w3)
                | Some (Inr _, h2, w3) \<Rightarrow> Some (None, h2, w3))))"

subsection \<open>The constructor and its options\<close>

text \<open>
  The fields of the hook are unexported, so the options that can change them are the four
  that the package builds. \<open>time.Duration\<close> and \<open>int\<close> are 64-bit integers on which the
  package only compares; they are \<open>int\<close> here.
\<close>

datatype CloudWatchLogsHookOption =
    WithGroupRetentionDays int
  | WithGroupKmsKeyID string
  | WithGroupTags "string \<rightharpoonup> string"
  | WithBatchDuration int

fun apply_option :: "CloudWatchLogsHookOption \<Rightarrow> 'w CloudWatchLogsHook \<Rightarrow> 'w CloudWatchLogsHook" where
  "apply_option (WithGroupRetentionDays days) h = h\<lparr>retentionDays := days\<rparr>"
| "apply_option (WithGroupKmsKeyID ident) h = h\<lparr>kmsKeyID := ident\<rparr>"
| "apply_option (WithGroupTags ts) h = h\<lparr>tags := ts\<rparr>"
| "apply_option (WithBatchDuration frequency) h = h\<lparr>logFrequency := frequency\<rparr>"

text \<open>
  \<open>config.LoadDefaultConfig\<close> and \<open>cloudwatchlogs.NewFromConfig\<close> belong to the SDK:
  \<open>LoadDefaultConfig\<close> is given the region when it is not empty, and \<open>NewFromConfig\<close>
  turns a configuration into a client. When the batch frequency is positive the
  constructor makes the channel and starts \<open>putBatch\<close> as a goroutine, which runs beside
  the callers from then on.
\<close>

definition NewCloudWatchLogsHook :: "(string option \<Rightarrow> error + 'c) \<Rightarrow> ('c \<Rightarrow> 'w Client)
    \<Rightarrow> string \<Rightarrow> string \<Rightarrow> string \<Rightarrow> CloudWatchLogsHookOption list \<Rightarrow> 'w world
    \<Rightarrow> ((error + 'w CloudWatchLogsHook) \<times> 'w world) option" where
  "NewCloudWatchLogsHook LoadDefaultConfig NewFromConfig region grp strm options w =
     (case (if region \<noteq> [] then LoadDefaultConfig (Some region) else LoadDefaultConfig None) of
        Inl e \<Rightarrow> Some (Inl e, w)
      | Inr awsConfig \<Rightarrow>
          (let hook = \<lparr>client = NewFromConfig awsConfig, group = grp, stream = strm,
                       nextSequenceToken = None, retentionDays = 0, kmsKeyID = [],
                       tags = Map.empty, logFrequency = 0, mutex = False, ch = None,
                       err = None\<rparr>;
               hook = fold apply_option options hook;
               hook = (if logFrequency hook > 0 then hook\<lparr>ch := Some (make_chan 10000)\<rparr>
                       else hook)
           in case createLogGroup hook w of
                None \<Rightarrow> None
              | Some (Some e, w1) \<Rightarrow> Some (Inl e, w1)
              | Some (None, w1) \<Rightarrow>
                  (case createLogStream hook w1 of
                     None \<Rightarrow> None
                   | Some (Some e, hook', w2) \<Rightarrow> Some (Inl e, w2)
                   | Some (None, hook', w2) \<Rightarrow> Some (Inr hook', w2))))"

subsection \<open>Fire and Levels\<close>

text \<open>
  \<open>logrus.Level\<close> enumerates the seven levels of logrus, from \<open>PanicLevel\<close> to
  \<open>TraceLevel\<close>. An entry has a level and further fields that only logrus reads;
  \<open>entry.String()\<close> is logrus' formatter, a parameter here. In the \<open>switch\<close> of
  \<open>Fire\<close> the cases for panic, error, warn and info fall through to the case for debug.
\<close>

datatype Level =
  PanicLevel | FatalLevel | ErrorLevel | WarnLevel | InfoLevel | DebugLevel | TraceLevel

record Entry =
  Level :: Level

definition Fire :: "('e Entry_scheme \<Rightarrow> error + string) \<Rightarrow> 64 word \<Rightarrow> 'e Entry_scheme
    \<Rightarrow> 'w CloudWatchLogsHook \<times> 'w world
    \<Rightarrow> (error option \<times> 'w CloudWatchLogsHook \<times> 'w world) option" where
  "Fire String now entry hw =
     (case String entry of
        Inl e \<Rightarrow> Some (Some (Errorf ''Unable to parse entry: '' e), hw)
      | Inr line \<Rightarrow>
          (let written = (case Write line now hw of
                            None \<Rightarrow> None
                          | Some ((_, e), hw') \<Rightarrow> Some (e, hw'))
           in case Level entry of
                PanicLevel \<Rightarrow> written
              | ErrorLevel \<Rightarrow> written
              | WarnLevel \<Rightarrow> written
              | InfoLevel \<Rightarrow> written
              | DebugLevel \<Rightarrow> written
              | _ \<Rightarrow> Some (None, hw)))"

definition Levels :: "Level list" where
  "Levels = [PanicLevel, FatalLevel, ErrorLevel, WarnLevel, InfoLevel, DebugLevel]"

subsection \<open>Callers in sequence\<close>

text \<open>
  A caller that invokes \<open>Write\<close> once per message, each call after the previous one has
  returned, with the clock reading taken by each call.
\<close>

fun Write_all :: "(string \<times> 64 word) list \<Rightarrow> 'w CloudWatchLogsHook \<times> 'w world
    \<Rightarrow> ((nat \<times> error option) list \<times> 'w CloudWatchLogsHook \<times> 'w world) option" where
  "Write_all [] hw = Some ([], hw)"
| "Write_all ((msg, now) # rest) hw =
     (case Write msg now hw of
        None \<Rightarrow> None
      | Some (r, hw') \<Rightarrow>
          (case Write_all rest hw' of
             None \<Rightarrow> None
           | Some (rs, hw'') \<Rightarrow> Some (r # rs, hw'')))"

subsection \<open>Goroutines\<close>

text \<open>
  Callers may be inside \<open>Write\<close> at the same time as \<open>putBatch\<close> and any number of
  \<open>sendBatch\<close> goroutines run. Each call is followed through the points where another
  goroutine can move in between, one access to the shared hook at a time. A call of
  \<open>Write\<close> is at its start; past the send on the channel; past the test
  \<open>h.err != nil\<close>; past the load \<open>lastErr := h.err\<close>, with the pointer it read; past
  \<open>h.mutex.Lock()\<close>; inside \<open>PutLogEvents\<close> with the request it built; before the
  deferred \<open>Unlock\<close> with its results; or done. With a channel \<open>Write\<close> never takes
  the mutex, so its test, its load and its store \<open>h.err = nil\<close> are three moves, and
  \<open>sendBatch\<close> can store \<open>h.err\<close> between any two of them. \<open>*lastErr\<close> of a \<open>nil\<close>
  pointer panics (\<open>W_panic\<close>). \<open>Write_step\<close> is the next move of such a call; it has
  none (\<open>None\<close>) while the call waits for the channel or for the mutex, and when the
  call is over.
\<close>

datatype Write_at =
    W_start
  | W_queued
  | W_tested
  | W_loaded "error option"
  | W_locked
  | W_calling PutLogEventsInput
  | W_returning "nat \<times> error option"
  | W_done "nat \<times> error option"
  | W_panic

fun Write_step :: "string \<Rightarrow> 64 word \<Rightarrow> Write_at \<Rightarrow> 'w CloudWatchLogsHook \<times> 'w world
    \<Rightarrow> (Write_at \<times> 'w CloudWatchLogsHook \<times> 'w world) option" where
  "Write_step msg now W_start (h, w) =
     (case ch h of
        Some c \<Rightarrow>
          (case send c (new_event msg now) of
             None \<Rightarrow> None
           | Some c' \<Rightarrow> Some (W_queued, h\<lparr>ch := Some c'\<rparr>, w))
      | None \<Rightarrow>
          (case Lock h of
             None \<Rightarrow> None
           | Some h1 \<Rightarrow> Some (W_locked, h1, w)))"
| "Write_step msg now W_queued (h, w) =
     (if err h \<noteq> None then Some (W_tested, h, w)
      else Some (W_done (length msg, None), h, w))"
| "Write_step msg now W_tested (h, w) = Some (W_loaded (err h), h, w)"
| "Write_step msg now (W_loaded lastErr) (h, w) =
     (case lastErr of
        Some e \<Rightarrow> Some (W_done (0, Some (Errorf [] e)), h\<lparr>err := None\<rparr>, w)
      | None \<Rightarrow> Some (W_panic, h\<lparr>err := None\<rparr>, w))"
| "Write_step msg now W_locked (h, w) =
     Some (W_calling (upload_input h [new_event msg now]), h, w)"
| "Write_step msg now (W_calling inp) (h, w) =
     (case PutLogEvents (client h) inp w of
        (Inl e, w') \<Rightarrow> Some (W_returning (0, Some e), h, w')
      | (Inr result, w') \<Rightarrow>
          Some (W_returning (length msg, None),
                h\<lparr>nextSequenceToken := NextSequenceToken result\<rparr>, w'))"
| "Write_step msg now (W_returning r) (h, w) = Some (W_done r, Unlock h, w)"
| "Write_step msg now (W_done r) (h, w) = None"
| "Write_step msg now W_panic (h, w) = None"

datatype sendBatch_at =
    S_start
  | S_locked
  | S_calling PutLogEventsInput
  | S_returning
  | S_done

fun sendBatch_step :: "InputLogEvent list \<Rightarrow> sendBatch_at \<Rightarrow> 'w CloudWatchLogsHook \<times> 'w world
    \<Rightarrow> (sendBatch_at \<times> 'w CloudWatchLogsHook \<times> 'w world) option" where
  "sendBatch_step batch S_start (h, w) =
     (case Lock h of
        None \<Rightarrow> None
      | Some h1 \<Rightarrow> Some (S_locked, h1, w))"
| "sendBatch_step batch S_locked (h, w) =
     (if length batch = 0 then Some (S_returning, h, w)
      else Some (S_calling (upload_input h batch), h, w))"
| "sendBatch_step batch (S_calling inp) (h, w) =
     (case PutLogEvents (client h) inp w of
        (Inl e, w') \<Rightarrow> Some (S_returning, h\<lparr>err := Some e\<rparr>, w')
      | (Inr result, w') \<Rightarrow>
          Some (S_returning, h\<lparr>nextSequenceToken := NextSequenceToken result\<rparr>, w'))"
| "sendBatch_step batch S_returning (h, w) = Some (S_done, Unlock h, w)"
| "sendBatch_step batch S_done (h, w) = None"

text \<open>
  A call that runs with no other goroutine moving in between, for at most \<open>n\<close> moves.
\<close>

fun Write_alone :: "nat \<Rightarrow> string \<Rightarrow> 64 word \<Rightarrow> Write_at \<Rightarrow> 'w CloudWatchLogsHook \<times> 'w world
    \<Rightarrow> ((nat \<times> error option) \<times> 'w CloudWatchLogsHook \<times> 'w world) option" where
  "Write_alone n msg now (W_done r) hw = Some (r, hw)"
| "Write_alone 0 msg now at hw = None"
| "Write_alone (Suc n) msg now at hw =
     (case Write_step msg now at hw of
        None \<Rightarrow> None
      | Some (at', hw') \<Rightarrow> Write_alone n msg now at' hw')"

fun sendBatch_alone :: "nat \<Rightarrow> InputLogEvent list \<Rightarrow> sendBatch_at
    \<Rightarrow> 'w CloudWatchLogsHook \<times> 'w world \<Rightarrow> ('w CloudWatchLogsHook \<times> 'w world) option" where
  "sendBatch_alone n batch S_done hw = Some hw"
| "sendBatch_alone 0 batch at hw = None"
| "sendBatch_alone (Suc n) batch at hw =
     (case sendBatch_step batch at hw of
        None \<Rightarrow> None
      | Some (at', hw') \<Rightarrow> sendBatch_alone n batch at' hw')"

text \<open>
  The running program: the shared hook, the service, and the goroutines. A move is a
  move of one call of \<open>Write\<close> or \<open>sendBatch\<close>, a pass of \<open>putBatch\<close> through its
  \<open>select\<close> (which starts the \<open>sendBatch\<close> goroutines of that pass), or a caller
  entering \<open>Write\<close>.
\<close>

datatype goroutine =
    Write_call string "64 word" Write_at
  | sendBatch_call "InputLogEvent list" sendBatch_at
  | putBatch_call batcher

record 'w running =
  shared :: "'w CloudWatchLogsHook"
  outside :: "'w world"
  goroutines :: "goroutine list"

inductive move :: "'w running \<Rightarrow> 'w running \<Rightarrow> bool" where
  in_Write:
    "i < length (goroutines s) \<Longrightarrow> goroutines s ! i = Write_call msg now at
     \<Longrightarrow> Write_step msg now at (shared s, outside s) = Some (at', h', w')
     \<Longrightarrow> move s \<lparr>shared = h', outside = w',
                  goroutines = (goroutines s)[i := Write_call msg now at']\<rparr>"
| in_sendBatch:
    "i < length (goroutines s) \<Longrightarrow> goroutines s ! i = sendBatch_call batch at
     \<Longrightarrow> sendBatch_step batch at (shared s, outside s) = Some (at', h', w')
     \<Longrightarrow> move s \<lparr>shared = h', outside = w',
                  goroutines = (goroutines s)[i := sendBatch_call batch at']\<rparr>"
| putBatch_receives:
    "i < length (goroutines s) \<Longrightarrow> goroutines s ! i = putBatch_call st
     \<Longrightarrow> receive_event (shared s) = Some (p, h')
     \<Longrightarrow> putBatch_case (Received p) st = (st', sent)
     \<Longrightarrow> move s \<lparr>shared = h', outside = outside s,
                  goroutines = (goroutines s)[i := putBatch_call st']
                               @ map (\<lambda>b. sendBatch_call b S_start) sent\<rparr>"
| putBatch_ticks:
    "i < length (goroutines s) \<Longrightarrow> goroutines s ! i = putBatch_call st
     \<Longrightarrow> putBatch_case Ticked st = (st', sent)
     \<Longrightarrow> move s \<lparr>shared = shared s, outside = outside s,
                  goroutines = (goroutines s)[i := putBatch_call st']
                               @ map (\<lambda>b. sendBatch_call b S_start) sent\<rparr>"
| enter_Write:
    "move s (s\<lparr>goroutines := goroutines s @ [Write_call msg now W_start]\<rparr>)"

text \<open>
  The program as the constructor leaves it: \<open>putBatch\<close> runs when there is a channel.
\<close>

definition started :: "'w CloudWatchLogsHook \<Rightarrow> 'w world \<Rightarrow> 'w running" where
  "started h w =
     \<lparr>shared = h, outside = w,
      goroutines = (case ch h of None \<Rightarrow> [] | Some c \<Rightarrow> [putBatch_call ([], 0)])\<rparr>"

text \<open>
  A goroutine holds the mutex from its \<open>Lock\<close> to its deferred \<open>Unlock\<close>; it is
  uploading while its \<open>PutLogEvents\<close> call is under way.
\<close>

fun holds :: "goroutine \<Rightarrow> bool" where
  "holds (Write_call msg now W_locked) = True"
| "holds (Write_call msg now (W_calling inp)) = True"
| "holds (Write_call msg now (W_returning r)) = True"
| "holds (sendBatch_call batch S_locked) = True"
| "holds (sendBatch_call batch (S_calling inp)) = True"
| "holds (sendBatch_call batch S_returning) = True"
| "holds g = False"

fun uploading :: "goroutine \<Rightarrow> bool" where
  "uploading (Write_call msg now (W_calling inp)) = True"
| "uploading (sendBatch_call batch (S_calling inp)) = True"
| "uploading g = False"

definition mutex_inv :: "'w running \<Rightarrow> bool" where
  "mutex_inv s = (length (filter holds (goroutines s)) = (if mutex (shared s) then 1 else 0))"

section \<open>Properties\<close>

subsection \<open>Limits of a batch\<close>

text \<open>
  The bytes that \<open>putBatch\<close> counts for a batch: each message's length and 26 more. A
  batch is within the limits when it has at most 10000 events and at most 1048576 bytes,
  or is a single event (which may be larger than that by itself).
\<close>

definition batch_bytes :: "InputLogEvent list \<Rightarrow> nat" where
  "batch_bytes b = sum_list (map (\<lambda>p. length (Message p) + 26) b)"

definition batch_ok :: "InputLogEvent list \<Rightarrow> bool" where
  "batch_ok b = (length b \<le> 10000 \<and>
     (batch_bytes b \<le> 1048576 \<or> length b = 1))"

definition batcher_inv :: "batcher \<Rightarrow> bool" where
  "batcher_inv st = (case st of (batch, sz) \<Rightarrow> sz = batch_bytes batch \<and> batch_ok batch)"

definition fits :: "selected \<Rightarrow> bool" where
  "fits s = (case s of Received p \<Rightarrow> length (Message p) + 26 \<le> 1048576 | Ticked \<Rightarrow> True)"

definition batcher_small :: "batcher \<Rightarrow> bool" where
  "batcher_small st = (case st of (batch, sz) \<Rightarrow> sz = batch_bytes batch \<and> sz \<le> 1048576)"

subsection \<open>One upload threaded through the sequence token\<close>

text \<open>
  The step from \<open>(h, w)\<close> to \<open>(h', w')\<close> is one upload of \<open>events\<close>: a single
  \<open>PutLogEvents\<close> call is added to the record, its request carries the token stored in
  \<open>h\<close>, and \<open>h'\<close> stores the token of the response when the call succeeded and the old
  token when it failed.
\<close>

definition one_upload :: "'w CloudWatchLogsHook \<Rightarrow> 'w world \<Rightarrow> InputLogEvent list
    \<Rightarrow> 'w CloudWatchLogsHook \<Rightarrow> 'w world \<Rightarrow> bool" where
  "one_upload h w events h' w' =
     (let request = \<lparr>LogEvents = events, LogGroupName = group h, LogStreamName = stream h,
                     SequenceToken = nextSequenceToken h\<rparr>
      in case op_PutLogEvents (client h) request (service w) of
           (r, s) \<Rightarrow>
             w' = \<lparr>calls = calls w @ [ReqPutLogEvents request], service = s\<rparr> \<and>
             nextSequenceToken h' =
               (case r of Inr result \<Rightarrow> NextSequenceToken result | Inl e \<Rightarrow> nextSequenceToken h))"

subsection \<open>Concrete inputs\<close>

definition oversize_event :: InputLogEvent where
  "oversize_event = \<lparr>Message = replicate 1048551 (CHR ''a''), Timestamp = 0\<rparr>"

definition small_event :: InputLogEvent where
  "small_event = \<lparr>Message = ''started'', Timestamp = 1\<rparr>"

text \<open>
  A service that knows the group \<open>''app''\<close> and the stream \<open>''main''\<close>, counts the
  uploads it has accepted, and answers each with the token \<open>''t1''\<close>; and one that
  refuses every upload.
\<close>

definition accepting_client :: "nat Client" where
  "accepting_client =
     \<lparr>op_DescribeLogGroups = (\<lambda>i s.
         (Inr \<lparr>LogGroups = [\<lparr>group_LogGroupName = Some ''app''\<rparr>],
               groups_out_NextToken = None\<rparr>, s)),
      op_CreateLogGroup = (\<lambda>i s. (Inr (), s)),
      op_DescribeLogStreams = (\<lambda>i s.
         (Inr \<lparr>LogStreams = [\<lparr>stream_LogStreamName = Some ''main'',
                              UploadSequenceToken = Some ''t0''\<rparr>],
               streams_out_NextToken = None\<rparr>, s)),
      op_CreateLogStream = (\<lambda>i s. (Inr (), s)),
      op_PutLogEvents = (\<lambda>i s. (Inr \<lparr>NextSequenceToken = Some ''t1''\<rparr>, Suc s))\<rparr>"

definition refusing_client :: "nat Client" where
  "refusing_client =
     accepting_client\<lparr>op_PutLogEvents := (\<lambda>i s. (Inl (ApiError ''throttled''), s))\<rparr>"

definition hook_of :: "nat Client \<Rightarrow> InputLogEvent chan option \<Rightarrow> nat CloudWatchLogsHook" where
  "hook_of c q =
     \<lparr>client = c, group = ''app'', stream = ''main'', nextSequenceToken = Some ''t0'',
      retentionDays = 0, kmsKeyID = [], tags = Map.empty,
      logFrequency = (if q = None then 0 else 1000000000), mutex = False, ch = q, err = None\<rparr>"

definition world0 :: "nat world" where
  "world0 = \<lparr>calls = [], service = 0\<rparr>"

text \<open>
  The hook and the record of calls that the constructor leaves with that service, and a
  program in which one call of \<open>Write\<close> is inside \<open>PutLogEvents\<close>.
\<close>

definition demo_hook :: "nat CloudWatchLogsHook" where
  "demo_hook = (hook_of accepting_client None)\<lparr>retentionDays := 7\<rparr>"

definition demo_world :: "nat world" where
  "demo_world =
     \<lparr>calls = [ReqDescribeLogGroups \<lparr>LogGroupNamePrefix = ''app'', groups_NextToken = None\<rparr>,
               ReqDescribeLogStreams \<lparr>streams_LogGroupName = ''app'',
                  LogStreamNamePrefix = ''main'', streams_NextToken = None\<rparr>],
      service = 0\<rparr>"

definition demo_request :: PutLogEventsInput where
  "demo_request = \<lparr>LogEvents = [new_event ''one'' 0], LogGroupName = ''app'',
     LogStreamName = ''main'', SequenceToken = Some ''t0''\<rparr>"

definition demo_uploading :: "nat running" where
  "demo_uploading =
     \<lparr>shared = demo_hook\<lparr>mutex := True\<rparr>, outside = demo_world,
      goroutines = [Write_call ''one'' 0 (W_calling demo_request)]\<rparr>"

text \<open>
  A service that refuses every upload, the first with one error and the later ones with
  another; the hook with a channel that the constructor returns over it, given a batch
  duration of one second; and two states of the running program: one in
  which a call of \<open>Write\<close> has loaded the first error and \<open>sendBatch\<close> has stored the
  second, and a later one in which three calls of \<open>Write\<close> have returned.
\<close>

definition flaky_client :: "nat Client" where
  "flaky_client =
     accepting_client\<lparr>op_PutLogEvents := (\<lambda>i s.
        (Inl (ApiError (if s = 0 then ''first failure'' else ''second failure'')), Suc s))\<rparr>"

definition race_hook :: "InputLogEvent list \<Rightarrow> error option \<Rightarrow> nat CloudWatchLogsHook" where
  "race_hook q e = (hook_of flaky_client (Some \<lparr>buf = q, cap = 10000\<rparr>))\<lparr>err := e\<rparr>"

definition race_event :: "string \<Rightarrow> InputLogEvent" where
  "race_event m = \<lparr>Message = m, Timestamp = 0\<rparr>"

definition race_request :: "string \<Rightarrow> request" where
  "race_request m = ReqPutLogEvents \<lparr>LogEvents = [race_event m], LogGroupName = ''app'',
     LogStreamName = ''main'', SequenceToken = Some ''t0''\<rparr>"

definition second_cached :: "nat running" where
  "second_cached =
     \<lparr>shared = race_hook [] (Some (ApiError ''second failure'')),
      outside = \<lparr>calls = calls demo_world @ [race_request ''a'', race_request ''b''],
                 service = 2\<rparr>,
      goroutines =
        [putBatch_call ([], 0),
         Write_call ''a'' 0 (W_done (1, None)),
         sendBatch_call [race_event ''a''] S_done,
         Write_call ''b'' 0 (W_loaded (Some (ApiError ''first failure''))),
         sendBatch_call [race_event ''b''] S_done]\<rparr>"

definition lost_failure :: "nat running" where
  "lost_failure =
     \<lparr>shared = race_hook [race_event ''c''] None,
      outside = \<lparr>calls = calls demo_world @ [race_request ''a'', race_request ''b''],
                 service = 2\<rparr>,
      goroutines =
        [putBatch_call ([], 0),
         Write_call ''a'' 0 (W_done (1, None)),
         sendBatch_call [race_event ''a''] S_done,
         Write_call ''b'' 0 (W_done (0, Some (ErrorString ''first failure''))),
         sendBatch_call [race_event ''b''] S_done,
         Write_call ''c'' 0 (W_done (1, None))]\<rparr>"

definition race_state :: "InputLogEvent list \<Rightarrow> error option \<Rightarrow> request list \<Rightarrow> nat
    \<Rightarrow> goroutine list \<Rightarrow> nat running" where
  "race_state q e cs n gs =
     \<lparr>shared = race_hook q e, outside = \<lparr>calls = calls demo_world @ cs, service = n\<rparr>,
      goroutines = gs\<rparr>"

subsection \<open>The batches of putBatch\<close>

lemma batch_bytes_simps [simp]:
  "batch_bytes [] = 0"
  "batch_bytes [p] = length (Message p) + 26"
  "batch_bytes (b @ [p]) = batch_bytes b + (length (Message p) + 26)"
  by (simp_all add: batch_bytes_def)

lemma batcher_inv_init: "batcher_inv ([], 0)"
  by (simp add: batcher_inv_def batch_ok_def)

lemma putBatch_case_inv:
  assumes "batcher_inv st" "putBatch_case s st = (st', sent)"
  shows "batcher_inv st' \<and> (\<forall>b \<in> set sent. batch_ok b)"
proof (cases st)
  case (Pair batch sz)
  show ?thesis
  proof (cases s)
    case (Received p)
    with assms Pair show ?thesis
      by (auto simp: batcher_inv_def batch_ok_def Let_def split: if_splits)
  next
    case Ticked
    with assms Pair show ?thesis
      by (auto simp: batcher_inv_def batch_ok_def)
  qed
qed

lemma putBatch_loop_inv:
  "batcher_inv st \<Longrightarrow> putBatch_loop ss st = (st', sent) \<Longrightarrow>
     batcher_inv st' \<and> (\<forall>b \<in> set sent. batch_ok b)"
proof (induction ss arbitrary: st st' sent)
  case Nil
  then show ?case by simp
next
  case (Cons s ss)
  obtain st1 sent1 where s1: "putBatch_case s st = (st1, sent1)"
    by (cases "putBatch_case s st")
  obtain st2 sent2 where s2: "putBatch_loop ss st1 = (st2, sent2)"
    by (cases "putBatch_loop ss st1")
  from Cons.prems(1) s1 have i1: "batcher_inv st1" "\<forall>b \<in> set sent1. batch_ok b"
    using putBatch_case_inv by blast+
  from Cons.IH [OF i1(1) s2] have i2: "batcher_inv st2" "\<forall>b \<in> set sent2. batch_ok b"
    by blast+
  from Cons.prems(2) s1 s2 have "st' = st2" "sent = sent1 @ sent2" by auto
  with i1 i2 show ?case by auto
qed

lemma putBatch_case_small:
  assumes "batcher_small st" "fits s" "putBatch_case s st = (st', sent)"
  shows "batcher_small st' \<and> (\<forall>b \<in> set sent. batch_bytes b \<le> 1048576)"
proof (cases st)
  case (Pair batch sz)
  show ?thesis
  proof (cases s)
    case (Received p)
    with assms Pair show ?thesis
      by (auto simp: batcher_small_def fits_def Let_def split: if_splits)
  next
    case Ticked
    with assms Pair show ?thesis
      by (auto simp: batcher_small_def)
  qed
qed

lemma putBatch_loop_small:
  "batcher_small st \<Longrightarrow> \<forall>s \<in> set ss. fits s \<Longrightarrow> putBatch_loop ss st = (st', sent) \<Longrightarrow>
     batcher_small st' \<and> (\<forall>b \<in> set sent. batch_bytes b \<le> 1048576)"
proof (induction ss arbitrary: st st' sent)
  case Nil
  then show ?case by simp
next
  case (Cons s ss)
  obtain st1 sent1 where s1: "putBatch_case s st = (st1, sent1)"
    by (cases "putBatch_case s st")
  obtain st2 sent2 where s2: "putBatch_loop ss st1 = (st2, sent2)"
    by (cases "putBatch_loop ss st1")
  from Cons.prems s1 have i1: "batcher_small st1" "\<forall>b \<in> set sent1. batch_bytes b \<le> 1048576"
    using putBatch_case_small [of st s st1 sent1] by simp_all
  from Cons.prems have "\<forall>s \<in> set ss. fits s" by simp
  from Cons.IH [OF i1(1) this s2]
  have i2: "batcher_small st2" "\<forall>b \<in> set sent2. batch_bytes b \<le> 1048576" by blast+
  from Cons.prems(3) s1 s2 have "st' = st2" "sent = sent1 @ sent2" by auto
  with i1 i2 show ?case by auto
qed

text \<open>
  C1, as the code has it. Every batch that \<open>putBatch\<close> hands to \<open>sendBatch\<close> has at most
  10000 events, and at most 1048576 bytes (message lengths and 26 bytes for each event)
  unless it is a single event; when every event received is at most 1048576 bytes with
  its 26 bytes, every batch is within both limits.
\<close>

theorem putBatch_batches_bounded:
  "(\<forall>b \<in> set (snd (putBatch ss)).
      length b \<le> 10000 \<and> (batch_bytes b \<le> 1048576 \<or> length b = 1))
   \<and> ((\<forall>p. Received p \<in> set ss \<longrightarrow> length (Message p) + 26 \<le> 1048576) \<longrightarrow>
      (\<forall>b \<in> set (snd (putBatch ss)). length b \<le> 10000 \<and> batch_bytes b \<le> 1048576))"
proof -
  obtain st sent where run: "putBatch_loop ss ([], 0) = (st, sent)"
    by (cases "putBatch_loop ss ([], 0)")
  have all: "\<forall>b \<in> set sent. batch_ok b"
    using putBatch_loop_inv [OF batcher_inv_init run] by blast
  have small: "\<forall>b \<in> set sent. batch_bytes b \<le> 1048576"
    if "\<forall>p. Received p \<in> set ss \<longrightarrow> length (Message p) + 26 \<le> 1048576"
  proof -
    have "\<forall>s \<in> set ss. fits s"
      using that by (auto simp: fits_def split: selected.splits)
    moreover have "batcher_small ([], 0)"
      by (simp add: batcher_small_def)
    ultimately show ?thesis
      using putBatch_loop_small run by blast
  qed
  from all small show ?thesis
    by (simp add: putBatch_def run batch_ok_def)
qed

text \<open>
  A single event of 1048551 bytes counts 1048577 bytes: \<open>putBatch\<close> first hands over the
  empty batch, and at the tick a batch above 1 MiB.
\<close>

theorem putBatch_oversize_counterexample:
  "snd (putBatch [Received oversize_event, Ticked]) = [[], [oversize_event]]
   \<and> 1048576 < batch_bytes [oversize_event]"
  by (simp add: putBatch_def oversize_event_def)

theorem putBatch_batches_bounded_witness:
  "snd (putBatch [Received small_event, Ticked]) = [[small_event]]
   \<and> length [small_event] \<le> 10000 \<and> batch_bytes [small_event] \<le> 1048576"
  using putBatch_batches_bounded [of "[Received small_event, Ticked]"]
  by (simp add: putBatch_def small_event_def)

subsection \<open>Write and sendBatch, step by step\<close>

lemma unlocked_id: "\<not> mutex h \<Longrightarrow> h\<lparr>mutex := False\<rparr> = h"
  by (cases h) simp

lemma PutLogEvents_eq:
  "PutLogEvents c i w =
     (fst (op_PutLogEvents c i (service w)),
      \<lparr>calls = calls w @ [ReqPutLogEvents i], service = snd (op_PutLogEvents c i (service w))\<rparr>)"
  by (simp add: PutLogEvents_def call_def split: prod.splits)

lemma uploads_append: "uploads (xs @ ys) = uploads xs @ uploads ys"
  by (induction xs rule: uploads.induct) simp_all

lemma Write_unbatched:
  assumes "ch h = None" "\<not> mutex h"
  shows "Write msg now (h, w) =
     (case PutLogEvents (client h) (upload_input h [new_event msg now]) w of
        (Inl e, w') \<Rightarrow> Some ((0, Some e), h, w')
      | (Inr result, w') \<Rightarrow>
          Some ((length msg, None), h\<lparr>nextSequenceToken := NextSequenceToken result\<rparr>, w'))"
  using assms
  by (simp add: Write_def Lock_def Unlock_def upload_input_def unlocked_id
      split: prod.splits sum.splits)

lemma sendBatch_unlocked:
  assumes "\<not> mutex h"
  shows "sendBatch batch (h, w) =
     (if batch = [] then Some (h, w)
      else case PutLogEvents (client h) (upload_input h batch) w of
        (Inl e, w') \<Rightarrow> Some (h\<lparr>err := Some e\<rparr>, w')
      | (Inr result, w') \<Rightarrow> Some (h\<lparr>nextSequenceToken := NextSequenceToken result\<rparr>, w'))"
  using assms
  by (simp add: sendBatch_def Lock_def Unlock_def upload_input_def unlocked_id
      split: prod.splits sum.splits)

lemma Write_batched:
  assumes "ch h = Some c"
  shows "Write msg now (h, w) =
     (if length (buf c) < cap c
      then Some ((case err h of Some lastErr \<Rightarrow> (0, Some (Errorf [] lastErr))
                               | None \<Rightarrow> (length msg, None)),
                 h\<lparr>ch := Some (c\<lparr>buf := buf c @ [new_event msg now]\<rparr>), err := None\<rparr>, w)
      else None)"
  using assms
  by (cases h) (auto simp add: Write_def send_def Let_def split: option.splits)

text \<open>
  C6. Without a channel, when \<open>PutLogEvents\<close> fails with \<open>e\<close>, \<open>Write\<close> returns
  \<open>(0, e)\<close> to its caller; the hook, and with it the sequence token, is as before, and
  the failed request is the only call made.
\<close>

theorem Write_unbatched_error:
  assumes "ch h = None" and "\<not> mutex h"
    and "op_PutLogEvents (client h) (upload_input h [new_event msg now]) (service w) = (Inl e, s)"
  shows "\<exists>h' w'. Write msg now (h, w) = Some ((0, Some e), h', w')
           \<and> nextSequenceToken h' = nextSequenceToken h \<and> h' = h
           \<and> w' = \<lparr>calls = calls w @ [ReqPutLogEvents (upload_input h [new_event msg now])],
                   service = s\<rparr>"
  using assms by (simp add: Write_unbatched PutLogEvents_eq)

theorem Write_unbatched_error_witness:
  "Write ''disk full'' 5000000 (hook_of refusing_client None, world0) =
     Some ((0, Some (ApiError ''throttled'')), hook_of refusing_client None,
           \<lparr>calls = [ReqPutLogEvents \<lparr>LogEvents = [\<lparr>Message = ''disk full'', Timestamp = 5\<rparr>],
                      LogGroupName = ''app'', LogStreamName = ''main'',
                      SequenceToken = Some ''t0''\<rparr>], service = 0\<rparr>)"
  using Write_unbatched_error [of "hook_of refusing_client None" "''disk full''" 5000000
      world0 "ApiError ''throttled''" 0]
  by (simp add: hook_of_def refusing_client_def accepting_client_def world0_def
      upload_input_def new_event_def timestamp_of_def)

text \<open>
  C10. \<open>sendBatch\<close> with an empty batch changes neither the hook nor the record of calls;
  when the upload of a batch fails, the hook differs in \<open>err\<close> only, so the sequence
  token is as before.
\<close>

theorem sendBatch_frame:
  assumes "\<not> mutex h"
  shows "sendBatch [] (h, w) = Some (h, w)
     \<and> (\<forall>batch e s. batch \<noteq> [] \<and>
           op_PutLogEvents (client h) (upload_input h batch) (service w) = (Inl e, s) \<longrightarrow>
           (\<exists>h' w'. sendBatch batch (h, w) = Some (h', w')
              \<and> h' = h\<lparr>err := Some e\<rparr> \<and> nextSequenceToken h' = nextSequenceToken h))"
  using assms by (simp add: sendBatch_unlocked PutLogEvents_eq)

theorem sendBatch_frame_witness:
  "sendBatch [] (hook_of refusing_client (Some (make_chan 10000)), world0)
     = Some (hook_of refusing_client (Some (make_chan 10000)), world0)
   \<and> sendBatch [small_event] (hook_of refusing_client (Some (make_chan 10000)), world0)
     = Some ((hook_of refusing_client (Some (make_chan 10000)))\<lparr>err := Some (ApiError ''throttled'')\<rparr>,
             \<lparr>calls = [ReqPutLogEvents \<lparr>LogEvents = [small_event],
                      LogGroupName = ''app'', LogStreamName = ''main'',
                      SequenceToken = Some ''t0''\<rparr>], service = 0\<rparr>)"
  using sendBatch_frame [of "hook_of refusing_client (Some (make_chan 10000))" world0]
  by (simp add: hook_of_def refusing_client_def accepting_client_def world0_def
      upload_input_def sendBatch_unlocked PutLogEvents_eq)

text \<open>
  With a channel, and no other goroutine moving in between: when the upload of a batch
  fails with \<open>e\<close>, \<open>sendBatch\<close> stores \<open>e\<close> in \<open>err\<close> and changes nothing else in the
  hook; it has made the one call that failed, and the batch is kept nowhere. A \<open>Write\<close>
  that runs next, from its start to its return, returns \<open>0\<close> and an error with the text
  of \<open>e\<close>, clears \<open>err\<close>, and makes no call to the service.
\<close>

lemma sendBatch_failure_then_Write:
  assumes "\<not> mutex h" and "ch h = Some c" and "length (buf c) < cap c" and "batch \<noteq> []"
    and "op_PutLogEvents (client h) (upload_input h batch) (service w) = (Inl e, s)"
  shows "\<exists>h1 w1 h2.
           sendBatch batch (h, w) = Some (h1, w1)
         \<and> h1 = h\<lparr>err := Some e\<rparr>
         \<and> calls w1 = calls w @ [ReqPutLogEvents (upload_input h batch)]
         \<and> Write msg now (h1, w1) = Some ((0, Some (Errorf [] e)), h2, w1)
         \<and> Error (Errorf [] e) = Error e
         \<and> err h2 = None"
  using assms by (simp add: sendBatch_unlocked PutLogEvents_eq Write_batched Errorf_def)

text \<open>
  C9. With a channel, \<open>Write\<close> returns only after it has put its event on the channel
  (it waits while the channel is full): whenever it returns, with an error or without,
  the last event of the channel carries the message of this call and its timestamp, and
  the error is the one that was in \<open>err\<close>. Taken move by move, the first move of the
  call is that send, whatever \<open>err\<close> holds; \<open>err\<close> is read only after it.
\<close>

theorem Write_batched_enqueues_first:
  assumes "ch h = Some c"
  shows "(Write msg now (h, w) = None \<longleftrightarrow> cap c \<le> length (buf c))
     \<and> (\<forall>r h' w'. Write msg now (h, w) = Some (r, h', w') \<longrightarrow>
           ch h' = Some (c\<lparr>buf := buf c @
                     [\<lparr>Message = msg, Timestamp = word_of_int (sint now sdiv 1000000)\<rparr>]\<rparr>)
           \<and> w' = w \<and> (snd r \<noteq> None \<longleftrightarrow> err h \<noteq> None))
     \<and> Write_step msg now W_start (h, w) =
           (if length (buf c) < cap c
            then Some (W_queued,
                       h\<lparr>ch := Some (c\<lparr>buf := buf c @
                         [\<lparr>Message = msg, Timestamp = word_of_int (sint now sdiv 1000000)\<rparr>]\<rparr>)\<rparr>,
                       w)
            else None)"
  using assms
  by (auto simp add: Write_batched new_event_def timestamp_of_def send_def split: option.splits)

theorem Write_batched_enqueues_first_witness:
  "Write ''next'' 0
     ((hook_of accepting_client (Some (make_chan 10000)))\<lparr>err := Some (ApiError ''throttled'')\<rparr>,
      world0)
     = Some ((0, Some (ErrorString ''throttled'')),
             hook_of accepting_client
               (Some \<lparr>buf = [\<lparr>Message = ''next'', Timestamp = 0\<rparr>], cap = 10000\<rparr>),
             world0)"
  using Write_batched_enqueues_first [of
      "(hook_of accepting_client (Some (make_chan 10000)))\<lparr>err := Some (ApiError ''throttled'')\<rparr>"
      "make_chan 10000" "''next''" 0 world0]
  by (simp add: hook_of_def make_chan_def Write_batched Errorf_def new_event_def timestamp_of_def)

lemma putBatch_loop_append:
  "putBatch_loop (ss @ ts) st =
     (case putBatch_loop ss st of
        (st', sent) \<Rightarrow> (case putBatch_loop ts st' of (st'', sent') \<Rightarrow> (st'', sent @ sent')))"
  by (induction ss arbitrary: st) (auto split: prod.splits)

text \<open>
  C5. When the event received would take the batch above 1048576 bytes (with 26 bytes for
  each event) or above 10000 events, \<open>putBatch\<close> hands the batch to \<open>sendBatch\<close> in that
  pass, without a tick, and the new batch is that event alone; otherwise the event joins
  the batch and nothing is sent.
\<close>

theorem putBatch_flushes_early:
  assumes "putBatch ss = ((batch, sz), sent)"
  shows "putBatch (ss @ [Received p]) =
     (if batch_bytes batch + (length (Message p) + 26) > 1048576 \<or> length batch + 1 > 10000
      then (([p], length (Message p) + 26), sent @ [batch])
      else ((batch @ [p], batch_bytes batch + (length (Message p) + 26)), sent))"
proof -
  from assms have run: "putBatch_loop ss ([], 0) = ((batch, sz), sent)"
    by (simp add: putBatch_def)
  from putBatch_loop_inv [OF batcher_inv_init run]
  have "sz = batch_bytes batch" "length batch \<le> 10000"
    by (simp_all add: batcher_inv_def batch_ok_def)
  then show ?thesis
    by (auto simp add: putBatch_def putBatch_loop_append run Let_def)
qed

theorem putBatch_flushes_early_witness:
  "putBatch ([Received small_event] @ [Received oversize_event])
     = (([oversize_event], 1048577), [[small_event]])"
  using putBatch_flushes_early [of "[Received small_event]" "[small_event]" 33 "[]" oversize_event]
  by (simp add: putBatch_def small_event_def oversize_event_def)

text \<open>
  C4. Every upload, from \<open>Write\<close> without a channel and from \<open>sendBatch\<close> with a batch
  that is not empty, is one \<open>PutLogEvents\<close> call whose request carries the stored
  \<open>nextSequenceToken\<close>; after a successful call the hook stores the token of the
  response. So the request of the upload that follows a successful one carries the token
  which that one returned.
\<close>

theorem sequence_token_threaded:
  assumes "\<not> mutex h"
  shows "(ch h = None \<longrightarrow>
           (\<exists>r h' w'. Write msg now (h, w) = Some (r, h', w')
              \<and> one_upload h w [new_event msg now] h' w'))
       \<and> (batch \<noteq> [] \<longrightarrow>
           (\<exists>h' w'. sendBatch batch (h, w) = Some (h', w') \<and> one_upload h w batch h' w'
              \<and> (\<forall>result next_batch.
                    fst (op_PutLogEvents (client h) (upload_input h batch) (service w)) = Inr result
                    \<and> next_batch \<noteq> [] \<longrightarrow>
                    (\<exists>h'' w''. sendBatch next_batch (h', w') = Some (h'', w'')
                       \<and> SequenceToken (last (uploads (calls w''))) = NextSequenceToken result))))"
proof (intro conjI impI)
  assume "ch h = None"
  with assms show "\<exists>r h' w'. Write msg now (h, w) = Some (r, h', w')
      \<and> one_upload h w [new_event msg now] h' w'"
    by (auto simp add: Write_unbatched PutLogEvents_eq one_upload_def upload_input_def
        split: prod.splits sum.splits)
next
  assume "batch \<noteq> []"
  with assms show "\<exists>h' w'. sendBatch batch (h, w) = Some (h', w') \<and> one_upload h w batch h' w'
      \<and> (\<forall>result next_batch.
            fst (op_PutLogEvents (client h) (upload_input h batch) (service w)) = Inr result
            \<and> next_batch \<noteq> [] \<longrightarrow>
            (\<exists>h'' w''. sendBatch next_batch (h', w') = Some (h'', w'')
               \<and> SequenceToken (last (uploads (calls w''))) = NextSequenceToken result))"
    by (auto simp add: sendBatch_unlocked PutLogEvents_eq one_upload_def upload_input_def
        uploads_append split: prod.splits sum.splits)
qed

theorem sequence_token_threaded_witness:
  "Write ''one'' 0 (hook_of accepting_client None, world0)
     = Some ((3, None), (hook_of accepting_client None)\<lparr>nextSequenceToken := Some ''t1''\<rparr>,
             \<lparr>calls = [ReqPutLogEvents \<lparr>LogEvents = [new_event ''one'' 0], LogGroupName = ''app'',
                        LogStreamName = ''main'', SequenceToken = Some ''t0''\<rparr>], service = 1\<rparr>)
   \<and> one_upload (hook_of accepting_client None) world0 [new_event ''one'' 0]
        ((hook_of accepting_client None)\<lparr>nextSequenceToken := Some ''t1''\<rparr>)
        \<lparr>calls = [ReqPutLogEvents \<lparr>LogEvents = [new_event ''one'' 0], LogGroupName = ''app'',
                        LogStreamName = ''main'', SequenceToken = Some ''t0''\<rparr>], service = 1\<rparr>"
  using sequence_token_threaded [of "hook_of accepting_client None" "''one''" 0 world0 "[small_event]"]
  by (simp add: hook_of_def accepting_client_def world0_def Write_unbatched PutLogEvents_eq
      upload_input_def one_upload_def)

subsection \<open>Fire\<close>

text \<open>
  C8, as the code has it. \<open>Levels\<close> lists \<open>FatalLevel\<close>, yet \<open>Fire\<close> writes nothing for
  an entry at that level: the hook and the record of calls are as before. For such an
  entry it returns \<open>nil\<close> when the entry's \<open>String()\<close> succeeds, and the error
  \<open>Unable to parse entry\<close> when it fails.
\<close>

theorem Fire_fatal_writes_nothing:
  "FatalLevel \<in> set Levels
   \<and> (Level entry = FatalLevel \<longrightarrow>
        (\<exists>r. Fire String now entry hw = Some (r, hw)
           \<and> (\<forall>line. String entry = Inr line \<longrightarrow> r = None)
           \<and> (\<forall>e. String entry = Inl e \<longrightarrow> r = Some (Errorf ''Unable to parse entry: '' e))))"
  by (auto simp add: Levels_def Fire_def Let_def split: sum.splits)

theorem Fire_fatal_error_counterexample:
  "Level \<lparr>Level = FatalLevel\<rparr> = FatalLevel
   \<and> Fire (\<lambda>entry. Inl (ApiError ''unsupported field'')) 0 \<lparr>Level = FatalLevel\<rparr>
        (hook_of accepting_client None, world0)
     = Some (Some (ErrorString ''Unable to parse entry: unsupported field''),
             hook_of accepting_client None, world0)"
  by (simp add: Fire_def Errorf_def)

theorem Fire_fatal_writes_nothing_witness:
  "Fire (\<lambda>entry. Inr ''level=fatal msg=stop'') 0 \<lparr>Level = FatalLevel\<rparr>
        (hook_of accepting_client None, world0)
     = Some (None, hook_of accepting_client None, world0)"
  using Fire_fatal_writes_nothing [of "\<lparr>Level = FatalLevel\<rparr>"
      "\<lambda>entry. Inr ''level=fatal msg=stop''" 0 "(hook_of accepting_client None, world0)"]
  by (simp add: Fire_def)

subsection \<open>The constructor, and Write without a channel\<close>

lemma uploads_snoc_other [simp]:
  "uploads (rs @ [ReqDescribeLogGroups a]) = uploads rs"
  "uploads (rs @ [ReqCreateLogGroup b]) = uploads rs"
  "uploads (rs @ [ReqDescribeLogStreams c]) = uploads rs"
  "uploads (rs @ [ReqCreateLogStream d]) = uploads rs"
  by (simp_all add: uploads_append)

lemma DescribeLogStreams_uploads:
  "DescribeLogStreams c i w = (r, w') \<Longrightarrow> uploads (calls w') = uploads (calls w)"
  by (auto simp: DescribeLogStreams_def call_def split: prod.splits)

lemma DescribeLogGroups_uploads:
  "DescribeLogGroups c i w = (r, w') \<Longrightarrow> uploads (calls w') = uploads (calls w)"
  by (auto simp: DescribeLogGroups_def call_def split: prod.splits)

lemma CreateLogGroup_uploads:
  "CreateLogGroup c i w = (r, w') \<Longrightarrow> uploads (calls w') = uploads (calls w)"
  by (auto simp: CreateLogGroup_def call_def split: prod.splits)

lemma CreateLogStream_uploads:
  "CreateLogStream c i w = (r, w') \<Longrightarrow> uploads (calls w') = uploads (calls w)"
  by (auto simp: CreateLogStream_def call_def split: prod.splits)

lemma findLogStream_loop_frame:
  assumes "findLogStream_loop h t w = Some y"
  shows "(\<exists>tok. fst (snd y) = h\<lparr>nextSequenceToken := tok\<rparr>)
     \<and> uploads (calls (snd (snd y))) = uploads (calls w)"
  using assms
proof (induction rule: findLogStream_loop.raw_induct [rotated 1, consumes 1])
  case (1 loop h nextToken w y)
  obtain r w1 where d: "DescribeLogStreams (client h)
      \<lparr>streams_LogGroupName = group h, LogStreamNamePrefix = stream h,
       streams_NextToken = nextToken\<rparr> w = (r, w1)"
    by (cases "DescribeLogStreams (client h)
      \<lparr>streams_LogGroupName = group h, LogStreamNamePrefix = stream h,
       streams_NextToken = nextToken\<rparr> w")
  have u: "uploads (calls w1) = uploads (calls w)"
    using d by (rule DescribeLogStreams_uploads)
  have same: "\<exists>tok. h = h\<lparr>nextSequenceToken := tok\<rparr>"
    by (rule exI [of _ "nextSequenceToken h"]) simp
  show ?case
  proof (cases r)
    case (Inl e)
    with 1(2) d u same show ?thesis by auto
  next
    case (Inr result)
    show ?thesis
    proof (cases "find (\<lambda>s. ToString (stream_LogStreamName s) = stream h) (LogStreams result)")
      case (Some s)
      with 1(2) d u Inr show ?thesis by auto
    next
      case None
      show ?thesis
      proof (cases "streams_out_NextToken result")
        case None': None
        with 1(2) d u Inr None same show ?thesis by auto
      next
        case (Some t')
        with 1(2) d Inr None have "loop h (Some t') w1 = Some y" by (simp add: Let_def)
        from 1(1) [OF this] u show ?thesis by simp
      qed
    qed
  qed
qed

lemma findLogGroup_loop_frame:
  assumes "findLogGroup_loop h t w = Some y"
  shows "uploads (calls (snd y)) = uploads (calls w)"
  using assms
proof (induction rule: findLogGroup_loop.raw_induct [rotated 1, consumes 1])
  case (1 loop h nextToken w y)
  obtain r w1 where d: "DescribeLogGroups (client h)
      \<lparr>LogGroupNamePrefix = group h, groups_NextToken = nextToken\<rparr> w = (r, w1)"
    by (cases "DescribeLogGroups (client h)
      \<lparr>LogGroupNamePrefix = group h, groups_NextToken = nextToken\<rparr> w")
  have u: "uploads (calls w1) = uploads (calls w)"
    using d by (rule DescribeLogGroups_uploads)
  show ?case
  proof (cases r)
    case (Inl e)
    with 1(2) d u show ?thesis by auto
  next
    case (Inr result)
    show ?thesis
    proof (cases "find (\<lambda>g. ToString (group_LogGroupName g) = group h) (LogGroups result)")
      case (Some g)
      with 1(2) d u Inr show ?thesis by auto
    next
      case None
      show ?thesis
      proof (cases "groups_out_NextToken result")
        case None': None
        with 1(2) d u Inr None show ?thesis by auto
      next
        case (Some t')
        with 1(2) d Inr None have "loop h (Some t') w1 = Some y" by (simp add: Let_def)
        from 1(1) [OF this] u show ?thesis by simp
      qed
    qed
  qed
qed

lemma createLogGroup_frame:
  "createLogGroup h w = Some (r, w') \<Longrightarrow> uploads (calls w') = uploads (calls w)"
  by (auto simp: createLogGroup_def findLogGroup_def Let_def
      split: option.splits prod.splits sum.splits
      dest!: findLogGroup_loop_frame CreateLogGroup_uploads)

lemma createLogStream_frame:
  "createLogStream h w = Some (r, h', w') \<Longrightarrow>
     (\<exists>tok. h' = h\<lparr>nextSequenceToken := tok\<rparr>) \<and> uploads (calls w') = uploads (calls w)"
  by (auto simp: createLogStream_def findLogStream_def
      split: option.splits prod.splits sum.splits
      dest!: findLogStream_loop_frame CreateLogStream_uploads)


lemma apply_option_frame [simp]:
  "mutex (apply_option opt h) = mutex h"
  "ch (apply_option opt h) = ch h"
  "err (apply_option opt h) = err h"
  by (cases opt; simp)+

lemma fold_apply_option_frame [simp]:
  "mutex (fold apply_option opts h) = mutex h"
  "ch (fold apply_option opts h) = ch h"
  "err (fold apply_option opts h) = err h"
  by (induction opts arbitrary: h) simp_all

lemma NewCloudWatchLogsHook_result:
  assumes "NewCloudWatchLogsHook LoadDefaultConfig NewFromConfig region grp strm opts w
             = Some (Inr h, w')"
  shows "\<not> mutex h \<and> err h = None
     \<and> ch h = (if logFrequency h > 0 then Some (make_chan 10000) else None)
     \<and> uploads (calls w') = uploads (calls w)"
proof -
  from assms obtain awsConfig where cfg:
    "(if region \<noteq> [] then LoadDefaultConfig (Some region) else LoadDefaultConfig None)
       = Inr awsConfig"
    by (auto simp: NewCloudWatchLogsHook_def split: sum.splits)
  define hook0 :: "'a CloudWatchLogsHook" where "hook0 = fold apply_option opts
     \<lparr>client = NewFromConfig awsConfig, group = grp, stream = strm,
      nextSequenceToken = None, retentionDays = 0, kmsKeyID = [],
      tags = Map.empty, logFrequency = 0, mutex = False, ch = None, err = None\<rparr>"
  define hook1 where "hook1 =
     (if logFrequency hook0 > 0 then hook0\<lparr>ch := Some (make_chan 10000)\<rparr> else hook0)"
  have h0: "\<not> mutex hook0" "ch hook0 = None" "err hook0 = None"
    by (simp_all add: hook0_def)
  then have h1: "\<not> mutex hook1" "err hook1 = None"
    "ch hook1 = (if logFrequency hook1 > 0 then Some (make_chan 10000) else None)"
    by (simp_all add: hook1_def)
  from assms cfg have "\<exists>w1. createLogGroup hook1 w = Some (None, w1)
      \<and> createLogStream hook1 w1 = Some (None, h, w')"
    unfolding NewCloudWatchLogsHook_def hook0_def hook1_def Let_def
    by (auto split: option.splits prod.splits)
  then obtain w1 where g: "createLogGroup hook1 w = Some (None, w1)"
    and s: "createLogStream hook1 w1 = Some (None, h, w')"
    by blast
  from createLogStream_frame [OF s] obtain tok where
    "h = hook1\<lparr>nextSequenceToken := tok\<rparr>" "uploads (calls w') = uploads (calls w1)"
    by blast
  with h1 createLogGroup_frame [OF g] show ?thesis by simp
qed

lemma Write_unbatched_step:
  assumes "ch h = None" "\<not> mutex h"
  shows "\<exists>r h1 w1. Write msg now (h, w) = Some (r, h1, w1) \<and> ch h1 = None \<and> \<not> mutex h1
           \<and> calls w1 = calls w @ [ReqPutLogEvents (upload_input h [new_event msg now])]"
  using assms
  by (cases "fst (op_PutLogEvents (client h) (upload_input h [new_event msg now]) (service w))")
    (simp_all add: Write_unbatched PutLogEvents_eq)

lemma Write_all_unbatched:
  "ch h = None \<Longrightarrow> \<not> mutex h \<Longrightarrow>
     \<exists>rs h' w' new. Write_all ms (h, w) = Some (rs, h', w') \<and> length rs = length ms
        \<and> calls w' = calls w @ map ReqPutLogEvents new
        \<and> map LogEvents new = map (\<lambda>(msg, now). [new_event msg now]) ms"
proof (induction ms arbitrary: h w)
  case Nil
  then show ?case by simp
next
  case (Cons m ms)
  obtain msg now where m: "m = (msg, now)" by (cases m)
  define inp where "inp = upload_input h [new_event msg now]"
  obtain r h1 w1 where step: "Write msg now (h, w) = Some (r, h1, w1)"
    and h1: "ch h1 = None" "\<not> mutex h1"
    and w1: "calls w1 = calls w @ [ReqPutLogEvents inp]"
    using Write_unbatched_step [OF Cons.prems] unfolding inp_def by blast
  from Cons.IH [OF h1, of w1] obtain rs h' w' new
    where rest: "Write_all ms (h1, w1) = Some (rs, h', w')" "length rs = length ms"
      "calls w' = calls w1 @ map ReqPutLogEvents new"
      "map LogEvents new = map (\<lambda>(msg, now). [new_event msg now]) ms"
    by blast
  have "Write_all (m # ms) (h, w) = Some (r # rs, h', w')"
    using step rest(1) m by simp
  moreover have "calls w' = calls w @ map ReqPutLogEvents (inp # new)"
    using w1 rest(3) by simp
  moreover have "map LogEvents (inp # new) = map (\<lambda>(msg, now). [new_event msg now]) (m # ms)"
    using rest(4) m by (simp add: inp_def upload_input_def)
  ultimately show ?case using rest(2) by (intro exI [of _ "r # rs"] exI [of _ h'] exI [of _ w'] exI [of _ "inp # new"]) simp
qed

lemma findLogGroup_loop_found:
  assumes "DescribeLogGroups (client h)
             \<lparr>LogGroupNamePrefix = group h, groups_NextToken = t\<rparr> w = (Inr result, w')"
    and "find (\<lambda>g. ToString (group_LogGroupName g) = group h) (LogGroups result) = Some g"
  shows "findLogGroup_loop h t w = Some (Inr (Some g), w')"
  by (subst findLogGroup_loop.simps) (simp add: assms)

lemma findLogStream_loop_found:
  assumes "DescribeLogStreams (client h)
             \<lparr>streams_LogGroupName = group h, LogStreamNamePrefix = stream h,
              streams_NextToken = t\<rparr> w = (Inr result, w')"
    and "find (\<lambda>s. ToString (stream_LogStreamName s) = stream h) (LogStreams result) = Some s"
  shows "findLogStream_loop h t w
           = Some (Inr (Some s), h\<lparr>nextSequenceToken := UploadSequenceToken s\<rparr>, w')"
  by (subst findLogStream_loop.simps) (simp add: assms)

lemma NewCloudWatchLogsHook_demo:
  "NewCloudWatchLogsHook (\<lambda>region. Inr ()) (\<lambda>cfg. accepting_client) [] ''app'' ''main''
       [WithGroupRetentionDays 7] world0
     = Some (Inr demo_hook, demo_world)"
  by (simp add: NewCloudWatchLogsHook_def createLogGroup_def createLogStream_def
      findLogGroup_def findLogStream_def findLogGroup_loop_found findLogStream_loop_found
      DescribeLogGroups_def DescribeLogStreams_def call_def accepting_client_def
      world0_def hook_of_def ToString_def demo_hook_def demo_world_def)

text \<open>
  C2. A hook that the constructor returns with \<open>logFrequency = 0\<close> has no channel, and
  then every \<open>Write\<close> of a caller returns after exactly one \<open>PutLogEvents\<close> call, whose
  events are the single event built from that call's message: the calls added to the
  record are those uploads, one for each message, in order.
\<close>

theorem unbatched_Write_uploads_each_message:
  assumes "NewCloudWatchLogsHook LoadDefaultConfig NewFromConfig region grp strm opts w0
             = Some (Inr h, w)"
    and "logFrequency h = 0"
  shows "ch h = None
     \<and> (\<exists>rs h' w' new. Write_all ms (h, w) = Some (rs, h', w') \<and> length rs = length ms
           \<and> calls w' = calls w @ map ReqPutLogEvents new
           \<and> map LogEvents new = map (\<lambda>(msg, now). [new_event msg now]) ms)"
proof -
  from NewCloudWatchLogsHook_result [OF assms(1)] assms(2)
  have "ch h = None" "\<not> mutex h" by simp_all
  then show ?thesis using Write_all_unbatched by blast
qed

theorem unbatched_Write_uploads_each_message_witness:
  "logFrequency demo_hook = 0 \<and> ch demo_hook = None
   \<and> (\<exists>h' w'. Write_all [(''one'', 0), (''two'', 2000000)] (demo_hook, demo_world)
        = Some ([(3, None), (3, None)], h', w')
        \<and> map LogEvents (uploads (calls w'))
            = [[\<lparr>Message = ''one'', Timestamp = 0\<rparr>], [\<lparr>Message = ''two'', Timestamp = 2\<rparr>]])"
  using unbatched_Write_uploads_each_message [OF NewCloudWatchLogsHook_demo,
      of "[(''one'', 0), (''two'', 2000000)]"]
  by (simp add: demo_hook_def demo_world_def hook_of_def accepting_client_def Write_unbatched
      PutLogEvents_eq upload_input_def new_event_def timestamp_of_def)

subsection \<open>Goroutines and the mutex\<close>

text \<open>
  A call that runs alone through its moves does what \<open>Write\<close> and \<open>sendBatch\<close> do.
\<close>

lemma Write_alone_is_Write: "Write_alone 4 msg now W_start hw = Write msg now hw"
proof (cases hw)
  case (Pair h w)
  show ?thesis
  proof (cases "ch h")
    case None
    then show ?thesis
      unfolding Pair
      by (cases "PutLogEvents (client h) (upload_input h [new_event msg now]) w")
        (auto simp add: numeral_eq_Suc Write_def Lock_def upload_input_def
          split: sum.splits)
  next
    case (Some c)
    then show ?thesis
      unfolding Pair
      by (auto simp add: numeral_eq_Suc Write_def Let_def split: option.splits)
  qed
qed

lemma sendBatch_alone_is_sendBatch: "sendBatch_alone 4 batch S_start hw = sendBatch batch hw"
proof (cases hw)
  case (Pair h w)
  show ?thesis
    unfolding Pair
    by (cases "PutLogEvents (client h) (upload_input h batch) w")
      (auto simp add: numeral_eq_Suc sendBatch_def Lock_def upload_input_def
        split: sum.splits)
qed

lemma uploading_holds: "uploading g \<Longrightarrow> holds g"
  by (cases g rule: uploading.cases) simp_all

lemma filter_update_length:
  "i < length xs \<Longrightarrow>
     length (filter P (xs[i := y])) + (if P (xs ! i) then 1 else 0)
       = length (filter P xs) + (if P y then 1 else 0)"
proof (induction xs arbitrary: i)
  case Nil
  then show ?case by simp
next
  case (Cons x xs)
  then show ?case by (cases i) auto
qed

lemma filter_holds_pos:
  "g \<in> set gs \<Longrightarrow> holds g \<Longrightarrow> 0 < length (filter holds gs)"
  by (auto simp add: filter_empty_conv)

lemma filter_length_mono:
  "(\<And>x. P x \<Longrightarrow> Q x) \<Longrightarrow> length (filter P xs) \<le> length (filter Q xs)"
  by (induction xs) auto

lemma Write_step_mutex:
  assumes "Write_step msg now at (h, w) = Some (at', h', w')"
  shows "(holds (Write_call msg now at) = holds (Write_call msg now at') \<and> mutex h' = mutex h)
     \<or> (\<not> holds (Write_call msg now at) \<and> holds (Write_call msg now at') \<and> \<not> mutex h \<and> mutex h')
     \<or> (holds (Write_call msg now at) \<and> \<not> holds (Write_call msg now at') \<and> \<not> mutex h')"
  using assms
  by (cases at) (auto simp: Lock_def Unlock_def split: option.splits if_splits sum.splits prod.splits)

lemma sendBatch_step_mutex:
  assumes "sendBatch_step batch at (h, w) = Some (at', h', w')"
  shows "(holds (sendBatch_call batch at) = holds (sendBatch_call batch at') \<and> mutex h' = mutex h)
     \<or> (\<not> holds (sendBatch_call batch at) \<and> holds (sendBatch_call batch at') \<and> \<not> mutex h \<and> mutex h')
     \<or> (holds (sendBatch_call batch at) \<and> \<not> holds (sendBatch_call batch at') \<and> \<not> mutex h')"
  using assms
  by (cases at) (auto simp: Lock_def Unlock_def split: option.splits if_splits sum.splits prod.splits)

lemma mutex_inv_update:
  assumes inv: "mutex_inv s" and i: "i < length (goroutines s)"
    and eff: "(holds (goroutines s ! i) = holds g \<and> mutex h' = mutex (shared s))
     \<or> (\<not> holds (goroutines s ! i) \<and> holds g \<and> \<not> mutex (shared s) \<and> mutex h')
     \<or> (holds (goroutines s ! i) \<and> \<not> holds g \<and> \<not> mutex h')"
    and new: "\<forall>n \<in> set new. \<not> holds n"
  shows "mutex_inv \<lparr>shared = h', outside = w', goroutines = (goroutines s)[i := g] @ new\<rparr>"
proof -
  have n0: "filter holds new = []"
    using new by (simp add: filter_empty_conv)
  have pos: "holds (goroutines s ! i) \<Longrightarrow> 0 < length (filter holds (goroutines s))"
    using i by (rule filter_holds_pos [OF nth_mem])
  from filter_update_length [OF i, of holds g] inv eff pos n0 show ?thesis
    by (auto simp add: mutex_inv_def split: if_splits)
qed

lemma receive_event_mutex: "receive_event h = Some (p, h') \<Longrightarrow> mutex h' = mutex h"
  by (auto simp: receive_event_def split: option.splits)

lemma move_mutex_inv:
  assumes "move s s'" "mutex_inv s"
  shows "mutex_inv s'"
  using assms
proof (induction rule: move.induct)
  case (in_Write i s msg now at at' h' w')
  from Write_step_mutex [OF in_Write(3)] in_Write(2)
  show ?case
    by (intro mutex_inv_update [where new = "[]", simplified] in_Write) simp_all
next
  case (in_sendBatch i s batch at at' h' w')
  from sendBatch_step_mutex [OF in_sendBatch(3)] in_sendBatch(2)
  show ?case
    by (intro mutex_inv_update [where new = "[]", simplified] in_sendBatch) simp_all
next
  case (putBatch_receives i s st p h' st' sent)
  then show ?case
    by (intro mutex_inv_update) (auto simp: receive_event_mutex)
next
  case (putBatch_ticks i s st st' sent)
  then show ?case
    by (intro mutex_inv_update) auto
next
  case (enter_Write s msg now)
  then show ?case by (simp add: mutex_inv_def)
qed

lemma started_mutex_inv: "\<not> mutex h \<Longrightarrow> mutex_inv (started h w)"
  by (simp add: mutex_inv_def started_def split: option.splits)

lemma reachable_mutex_inv:
  assumes "rtranclp move s0 s" "mutex_inv s0"
  shows "mutex_inv s"
  using assms by (induction rule: rtranclp_induct) (auto intro: move_mutex_inv)

lemma demo_reachable: "rtranclp move (started demo_hook demo_world) demo_uploading"
proof -
  let ?s0 = "started demo_hook demo_world"
  let ?s1 = "?s0\<lparr>goroutines := goroutines ?s0 @ [Write_call ''one'' 0 W_start]\<rparr>"
  let ?s2 = "\<lparr>shared = demo_hook\<lparr>mutex := True\<rparr>, outside = demo_world,
              goroutines = [Write_call ''one'' 0 W_locked]\<rparr>"
  have m1: "move ?s0 ?s1"
    by (rule enter_Write)
  have m2: "move ?s1 ?s2"
    using in_Write [of 0 ?s1 "''one''" 0 W_start W_locked "demo_hook\<lparr>mutex := True\<rparr>" demo_world]
    by (simp add: started_def demo_hook_def hook_of_def Lock_def)
  have m3: "move ?s2 demo_uploading"
    using in_Write [of 0 ?s2 "''one''" 0 W_locked "W_calling demo_request"
        "demo_hook\<lparr>mutex := True\<rparr>" demo_world]
    by (simp add: demo_uploading_def demo_request_def demo_hook_def hook_of_def upload_input_def)
  from m1 have "rtranclp move ?s0 ?s1" by (rule r_into_rtranclp)
  then have "rtranclp move ?s0 ?s2" using m2 by (rule rtranclp.rtrancl_into_rtrancl)
  then show ?thesis using m3 by (rule rtranclp.rtrancl_into_rtrancl)
qed

text \<open>
  C7. In every state that the program reaches from the hook that the constructor returns,
  a goroutine whose \<open>PutLogEvents\<close> call is under way, in \<open>Write\<close> or in
  \<open>sendBatch\<close>, is between its \<open>Lock\<close> and its \<open>Unlock\<close> and the mutex is held; at
  most one goroutine is uploading; and the goroutines between their \<open>Lock\<close> and their
  \<open>Unlock\<close> are one when the mutex is held and none when it is free.
\<close>

theorem uploads_hold_the_mutex:
  assumes "NewCloudWatchLogsHook LoadDefaultConfig NewFromConfig region grp strm opts w0
             = Some (Inr h, w)"
    and "rtranclp move (started h w) s"
  shows "(\<forall>g \<in> set (goroutines s). uploading g \<longrightarrow> holds g \<and> mutex (shared s))
     \<and> length (filter uploading (goroutines s)) \<le> 1
     \<and> length (filter holds (goroutines s)) = (if mutex (shared s) then 1 else 0)"
proof -
  have "\<not> mutex h"
    using NewCloudWatchLogsHook_result [OF assms(1)] by simp
  then have inv: "mutex_inv s"
    using reachable_mutex_inv [OF assms(2)] started_mutex_inv by blast
  have le: "length (filter uploading (goroutines s)) \<le> length (filter holds (goroutines s))"
    by (rule filter_length_mono) (rule uploading_holds)
  have "holds g \<and> mutex (shared s)" if "g \<in> set (goroutines s)" "uploading g" for g
  proof -
    from that have "holds g" by (simp add: uploading_holds)
    with that(1) have "0 < length (filter holds (goroutines s))"
      by (rule filter_holds_pos)
    with inv \<open>holds g\<close> show ?thesis
      by (simp add: mutex_inv_def split: if_splits)
  qed
  moreover from inv le have "length (filter uploading (goroutines s)) \<le> 1"
    by (simp add: mutex_inv_def split: if_splits)
  moreover from inv
  have "length (filter holds (goroutines s)) = (if mutex (shared s) then 1 else 0)"
    by (simp add: mutex_inv_def)
  ultimately show ?thesis by blast
qed

theorem uploads_hold_the_mutex_witness:
  "uploading (Write_call ''one'' 0 (W_calling demo_request))
   \<and> holds (Write_call ''one'' 0 (W_calling demo_request))
   \<and> mutex (shared demo_uploading)
   \<and> length (filter uploading (goroutines demo_uploading)) \<le> 1"
  using uploads_hold_the_mutex [OF NewCloudWatchLogsHook_demo demo_reachable]
  by (simp add: demo_uploading_def)

subsection \<open>A failure stored while Write is between its load and its clear\<close>

text \<open>
  A call that runs alone, for any number of moves, is a path of the running program.
\<close>

lemma Write_alone_Suc:
  "\<forall>r. at \<noteq> W_done r \<Longrightarrow>
     Write_alone (Suc n) msg now at hw =
       (case Write_step msg now at hw of
          None \<Rightarrow> None
        | Some (at', hw') \<Rightarrow> Write_alone n msg now at' hw')"
  by (cases at) auto

lemma Write_alone_0: "\<forall>r. at \<noteq> W_done r \<Longrightarrow> Write_alone 0 msg now at hw = None"
  by (cases at) auto

lemma Write_alone_moves:
  assumes "Write_alone n msg now at (h, w) = Some (r, h', w')"
    and "i < length gs" and "gs ! i = Write_call msg now at"
  shows "rtranclp move \<lparr>shared = h, outside = w, goroutines = gs\<rparr>
           \<lparr>shared = h', outside = w', goroutines = gs[i := Write_call msg now (W_done r)]\<rparr>"
  using assms
proof (induction n arbitrary: at h w gs)
  case 0
  show ?case
  proof (cases "\<exists>r0. at = W_done r0")
    case True
    with 0 show ?thesis by (auto simp: list_update_same_conv [THEN iffD2])
  next
    case False
    with 0(1) show ?thesis by (simp add: Write_alone_0)
  qed
next
  case (Suc n)
  show ?case
  proof (cases "\<exists>r0. at = W_done r0")
    case True
    with Suc.prems show ?thesis by (auto simp: list_update_same_conv [THEN iffD2])
  next
    case False
    with Suc.prems(1) obtain at1 h1 w1
      where st: "Write_step msg now at (h, w) = Some (at1, h1, w1)"
        and rest: "Write_alone n msg now at1 (h1, w1) = Some (r, h', w')"
      by (auto simp add: Write_alone_Suc split: option.splits)
    let ?s = "\<lparr>shared = h, outside = w, goroutines = gs\<rparr>"
    let ?gs1 = "gs[i := Write_call msg now at1]"
    have "move ?s \<lparr>shared = h1, outside = w1, goroutines = (goroutines ?s)[i := Write_call msg now at1]\<rparr>"
      by (rule in_Write [where at = at]) (use Suc.prems st in simp_all)
    then have m: "move ?s \<lparr>shared = h1, outside = w1, goroutines = ?gs1\<rparr>" by simp
    have "rtranclp move \<lparr>shared = h1, outside = w1, goroutines = ?gs1\<rparr>
            \<lparr>shared = h', outside = w', goroutines = ?gs1[i := Write_call msg now (W_done r)]\<rparr>"
      by (rule Suc.IH [OF rest]) (use Suc.prems in simp_all)
    then have "rtranclp move \<lparr>shared = h1, outside = w1, goroutines = ?gs1\<rparr>
            \<lparr>shared = h', outside = w', goroutines = gs[i := Write_call msg now (W_done r)]\<rparr>"
      by simp
    with m show ?thesis by (rule converse_rtranclp_into_rtranclp)
  qed
qed

lemma sendBatch_alone_Suc:
  "at \<noteq> S_done \<Longrightarrow>
     sendBatch_alone (Suc n) batch at hw =
       (case sendBatch_step batch at hw of
          None \<Rightarrow> None
        | Some (at', hw') \<Rightarrow> sendBatch_alone n batch at' hw')"
  by (cases at) simp_all

lemma sendBatch_alone_0: "at \<noteq> S_done \<Longrightarrow> sendBatch_alone 0 batch at hw = None"
  by (cases at) simp_all

lemma sendBatch_alone_moves:
  assumes "sendBatch_alone n batch at (h, w) = Some (h', w')"
    and "i < length gs" and "gs ! i = sendBatch_call batch at"
  shows "rtranclp move \<lparr>shared = h, outside = w, goroutines = gs\<rparr>
           \<lparr>shared = h', outside = w', goroutines = gs[i := sendBatch_call batch S_done]\<rparr>"
  using assms
proof (induction n arbitrary: at h w gs)
  case 0
  show ?case
  proof (cases "at = S_done")
    case True
    with 0 show ?thesis by (auto simp: list_update_same_conv [THEN iffD2])
  next
    case False
    with 0(1) show ?thesis by (simp add: sendBatch_alone_0)
  qed
next
  case (Suc n)
  show ?case
  proof (cases "at = S_done")
    case True
    with Suc.prems show ?thesis by (auto simp: list_update_same_conv [THEN iffD2])
  next
    case False
    with Suc.prems(1) obtain at1 h1 w1
      where st: "sendBatch_step batch at (h, w) = Some (at1, h1, w1)"
        and rest: "sendBatch_alone n batch at1 (h1, w1) = Some (h', w')"
      by (auto simp add: sendBatch_alone_Suc split: option.splits)
    let ?s = "\<lparr>shared = h, outside = w, goroutines = gs\<rparr>"
    let ?gs1 = "gs[i := sendBatch_call batch at1]"
    have "move ?s \<lparr>shared = h1, outside = w1, goroutines = (goroutines ?s)[i := sendBatch_call batch at1]\<rparr>"
      by (rule in_sendBatch [where at = at]) (use Suc.prems st in simp_all)
    then have m: "move ?s \<lparr>shared = h1, outside = w1, goroutines = ?gs1\<rparr>" by simp
    have "rtranclp move \<lparr>shared = h1, outside = w1, goroutines = ?gs1\<rparr>
            \<lparr>shared = h', outside = w', goroutines = ?gs1[i := sendBatch_call batch S_done]\<rparr>"
      by (rule Suc.IH [OF rest]) (use Suc.prems in simp_all)
    then have "rtranclp move \<lparr>shared = h1, outside = w1, goroutines = ?gs1\<rparr>
            \<lparr>shared = h', outside = w', goroutines = gs[i := sendBatch_call batch S_done]\<rparr>"
      by simp
    with m show ?thesis by (rule converse_rtranclp_into_rtranclp)
  qed
qed

lemma Write_moves:
  assumes "Write msg now (h, w) = Some (r, h', w')"
    and "i < length gs" and "gs ! i = Write_call msg now W_start"
  shows "rtranclp move \<lparr>shared = h, outside = w, goroutines = gs\<rparr>
           \<lparr>shared = h', outside = w', goroutines = gs[i := Write_call msg now (W_done r)]\<rparr>"
  using Write_alone_moves [of 4 msg now W_start h w r h' w' i gs] assms
  by (simp add: Write_alone_is_Write)

lemma sendBatch_moves:
  assumes "sendBatch batch (h, w) = Some (h', w')"
    and "i < length gs" and "gs ! i = sendBatch_call batch S_start"
  shows "rtranclp move \<lparr>shared = h, outside = w, goroutines = gs\<rparr>
           \<lparr>shared = h', outside = w', goroutines = gs[i := sendBatch_call batch S_done]\<rparr>"
  using sendBatch_alone_moves [of 4 batch S_start h w h' w' i gs] assms
  by (simp add: sendBatch_alone_is_sendBatch)

lemmas race_defs = race_state_def race_hook_def race_event_def race_request_def hook_of_def
  flaky_client_def accepting_client_def demo_world_def started_def make_chan_def

lemma NewCloudWatchLogsHook_race:
  "NewCloudWatchLogsHook (\<lambda>region. Inr ()) (\<lambda>cfg. flaky_client) [] ''app'' ''main''
       [WithBatchDuration 1000000000] world0
     = Some (Inr (race_hook [] None), demo_world)"
  by (simp add: NewCloudWatchLogsHook_def createLogGroup_def createLogStream_def
      findLogGroup_def findLogStream_def findLogGroup_loop_found findLogStream_loop_found
      DescribeLogGroups_def DescribeLogStreams_def call_def flaky_client_def
      accepting_client_def world0_def hook_of_def ToString_def race_hook_def demo_world_def
      make_chan_def)

lemma race_first_failure:
  "rtranclp move (started (race_hook [] None) demo_world)
     (race_state [] (Some (ApiError ''first failure'')) [race_request ''a''] 1
        [putBatch_call ([], 0), Write_call ''a'' 0 (W_done (1, None)),
         sendBatch_call [race_event ''a''] S_done])"
proof -
  let ?pb = "putBatch_call ([], 0)"
  let ?wa = "Write_call ''a'' 0 (W_done (1, None))"
  let ?s0 = "started (race_hook [] None) demo_world"
  let ?s1 = "race_state [] None [] 0 [?pb, Write_call ''a'' 0 W_start]"
  let ?s2 = "race_state [race_event ''a''] None [] 0 [?pb, ?wa]"
  let ?s3 = "race_state [] None [] 0 [putBatch_call ([race_event ''a''], 27), ?wa]"
  let ?s4 = "race_state [] None [] 0 [?pb, ?wa, sendBatch_call [race_event ''a''] S_start]"
  let ?s5 = "race_state [] (Some (ApiError ''first failure'')) [race_request ''a''] 1
        [?pb, ?wa, sendBatch_call [race_event ''a''] S_done]"
  have m1: "move ?s0 ?s1"
    using enter_Write [of ?s0 "''a''" 0] by (simp add: race_defs)
  have r2: "rtranclp move ?s1 ?s2"
    using Write_moves [of "''a''" 0 "race_hook [] None" "\<lparr>calls = calls demo_world, service = 0\<rparr>"
        "(1, None)" "race_hook [race_event ''a''] None" "\<lparr>calls = calls demo_world, service = 0\<rparr>"
        1 "[?pb, Write_call ''a'' 0 W_start]"]
    by (simp add: race_defs Write_batched new_event_def timestamp_of_def)
  have m3: "move ?s2 ?s3"
    using putBatch_receives [of 0 ?s2 "([], 0)" "race_event ''a''" "race_hook [] None"
        "([race_event ''a''], 27)" "[]"]
    by (simp add: race_defs receive_event_def recv_def)
  have m4: "move ?s3 ?s4"
    using putBatch_ticks [of 0 ?s3 "([race_event ''a''], 27)" "([], 0)" "[[race_event ''a'']]"]
    by (simp add: race_defs)
  have r5: "rtranclp move ?s4 ?s5"
    using sendBatch_moves [of "[race_event ''a'']" "race_hook [] None"
        "\<lparr>calls = calls demo_world, service = 0\<rparr>" "race_hook [] (Some (ApiError ''first failure''))"
        "\<lparr>calls = calls demo_world @ [race_request ''a''], service = 1\<rparr>" 2
        "[?pb, ?wa, sendBatch_call [race_event ''a''] S_start]"]
    by (simp add: race_defs sendBatch_unlocked PutLogEvents_eq upload_input_def)
  from m1 r2 have "rtranclp move ?s0 ?s2" by (rule converse_rtranclp_into_rtranclp)
  then have "rtranclp move ?s0 ?s3" using m3 by (rule rtranclp.rtrancl_into_rtrancl)
  then have "rtranclp move ?s0 ?s4" using m4 by (rule rtranclp.rtrancl_into_rtrancl)
  then show ?thesis using r5 by (rule rtranclp_trans)
qed


lemma race_second_failure:
  "rtranclp move
     (race_state [] (Some (ApiError ''first failure'')) [race_request ''a''] 1
        [putBatch_call ([], 0), Write_call ''a'' 0 (W_done (1, None)),
         sendBatch_call [race_event ''a''] S_done])
     second_cached"
proof -
  let ?pb = "putBatch_call ([], 0)"
  let ?wa = "Write_call ''a'' 0 (W_done (1, None))"
  let ?sa = "sendBatch_call [race_event ''a''] S_done"
  let ?e1 = "Some (ApiError ''first failure'')"
  let ?wb = "Write_call ''b'' 0 (W_loaded ?e1)"
  let ?s5 = "race_state [] ?e1 [race_request ''a''] 1 [?pb, ?wa, ?sa]"
  let ?s6 = "race_state [] ?e1 [race_request ''a''] 1 [?pb, ?wa, ?sa, Write_call ''b'' 0 W_start]"
  let ?s7 = "race_state [race_event ''b''] ?e1 [race_request ''a''] 1
        [?pb, ?wa, ?sa, Write_call ''b'' 0 W_queued]"
  let ?s8 = "race_state [race_event ''b''] ?e1 [race_request ''a''] 1
        [?pb, ?wa, ?sa, Write_call ''b'' 0 W_tested]"
  let ?s9 = "race_state [race_event ''b''] ?e1 [race_request ''a''] 1 [?pb, ?wa, ?sa, ?wb]"
  let ?s10 = "race_state [] ?e1 [race_request ''a''] 1
        [putBatch_call ([race_event ''b''], 27), ?wa, ?sa, ?wb]"
  let ?s11 = "race_state [] ?e1 [race_request ''a''] 1
        [?pb, ?wa, ?sa, ?wb, sendBatch_call [race_event ''b''] S_start]"
  have m6: "move ?s5 ?s6"
    using enter_Write [of ?s5 "''b''" 0] by (simp add: race_defs)
  have m7: "move ?s6 ?s7"
    using in_Write [of 3 ?s6 "''b''" 0 W_start W_queued "race_hook [race_event ''b''] ?e1"
        "\<lparr>calls = calls demo_world @ [race_request ''a''], service = 1\<rparr>"]
    by (simp add: race_defs send_def new_event_def timestamp_of_def)
  have m8: "move ?s7 ?s8"
    using in_Write [of 3 ?s7 "''b''" 0 W_queued W_tested "race_hook [race_event ''b''] ?e1"
        "\<lparr>calls = calls demo_world @ [race_request ''a''], service = 1\<rparr>"]
    by (simp add: race_defs)
  have m9: "move ?s8 ?s9"
    using in_Write [of 3 ?s8 "''b''" 0 W_tested "W_loaded ?e1" "race_hook [race_event ''b''] ?e1"
        "\<lparr>calls = calls demo_world @ [race_request ''a''], service = 1\<rparr>"]
    by (simp add: race_defs)
  have m10: "move ?s9 ?s10"
    using putBatch_receives [of 0 ?s9 "([], 0)" "race_event ''b''" "race_hook [] ?e1"
        "([race_event ''b''], 27)" "[]"]
    by (simp add: race_defs receive_event_def recv_def)
  have m11: "move ?s10 ?s11"
    using putBatch_ticks [of 0 ?s10 "([race_event ''b''], 27)" "([], 0)" "[[race_event ''b'']]"]
    by (simp add: race_defs)
  have r12: "rtranclp move ?s11 second_cached"
    using sendBatch_moves [of "[race_event ''b'']" "race_hook [] ?e1"
        "\<lparr>calls = calls demo_world @ [race_request ''a''], service = 1\<rparr>"
        "race_hook [] (Some (ApiError ''second failure''))"
        "\<lparr>calls = calls demo_world @ [race_request ''a'', race_request ''b''], service = 2\<rparr>" 4
        "[?pb, ?wa, ?sa, ?wb, sendBatch_call [race_event ''b''] S_start]"]
    by (simp add: second_cached_def race_defs sendBatch_unlocked PutLogEvents_eq upload_input_def)
  from m6 have "rtranclp move ?s5 ?s6" by (rule r_into_rtranclp)
  then have "rtranclp move ?s5 ?s7" using m7 by (rule rtranclp.rtrancl_into_rtrancl)
  then have "rtranclp move ?s5 ?s8" using m8 by (rule rtranclp.rtrancl_into_rtrancl)
  then have "rtranclp move ?s5 ?s9" using m9 by (rule rtranclp.rtrancl_into_rtrancl)
  then have "rtranclp move ?s5 ?s10" using m10 by (rule rtranclp.rtrancl_into_rtrancl)
  then have "rtranclp move ?s5 ?s11" using m11 by (rule rtranclp.rtrancl_into_rtrancl)
  then show ?thesis using r12 by (rule rtranclp_trans)
qed

lemma race_failure_lost: "rtranclp move second_cached lost_failure"
proof -
  let ?pb = "putBatch_call ([], 0)"
  let ?wa = "Write_call ''a'' 0 (W_done (1, None))"
  let ?sa = "sendBatch_call [race_event ''a''] S_done"
  let ?sb = "sendBatch_call [race_event ''b''] S_done"
  let ?wb = "Write_call ''b'' 0 (W_done (0, Some (ErrorString ''first failure'')))"
  let ?cs = "[race_request ''a'', race_request ''b'']"
  let ?w = "\<lparr>calls = calls demo_world @ ?cs, service = 2\<rparr>"
  let ?s13 = "race_state [] None ?cs 2 [?pb, ?wa, ?sa, ?wb, ?sb]"
  let ?s14 = "race_state [] None ?cs 2 [?pb, ?wa, ?sa, ?wb, ?sb, Write_call ''c'' 0 W_start]"
  have m13: "move second_cached ?s13"
    using in_Write [of 3 second_cached "''b''" 0 "W_loaded (Some (ApiError ''first failure''))"
        "W_done (0, Some (ErrorString ''first failure''))" "race_hook [] None"
        ?w]
    by (simp add: second_cached_def race_defs Errorf_def)
  have m14: "move ?s13 ?s14"
    using enter_Write [of ?s13 "''c''" 0] by (simp add: race_defs)
  have r15: "rtranclp move ?s14 lost_failure"
    using Write_moves [of "''c''" 0 "race_hook [] None" ?w
        "(1, None)" "race_hook [race_event ''c''] None" ?w
        5 "[?pb, ?wa, ?sa, ?wb, ?sb, Write_call ''c'' 0 W_start]"]
    by (simp add: lost_failure_def race_defs Write_batched new_event_def timestamp_of_def)
  from m13 have "rtranclp move second_cached ?s13" by (rule r_into_rtranclp)
  then have "rtranclp move second_cached ?s14" using m14 by (rule rtranclp.rtrancl_into_rtrancl)
  then show ?thesis using r15 by (rule rtranclp_trans)
qed

text \<open>
  C3 says that a failure of a background upload is stored in \<open>err\<close> and returned by the
  next \<open>Write\<close>, which clears \<open>err\<close>. \<open>sendBatch\<close> stores \<open>err\<close> under the mutex, but
  with a channel \<open>Write\<close> tests, loads and clears \<open>err\<close> without it, and the code does
  not keep the claim in this schedule, from the hook that the constructor returns: the
  upload of \<open>a\<close> fails and its error is stored; the \<open>Write\<close> of \<open>b\<close> tests and loads
  that error; the upload of \<open>b\<close> fails and \<open>sendBatch\<close> stores the second error; the
  \<open>Write\<close> of \<open>b\<close> then clears \<open>err\<close> and returns the first error; and the next
  \<open>Write\<close>, of \<open>c\<close>, returns \<open>(1, nil)\<close>. The second failure was stored and no
  \<open>Write\<close> returns it.
\<close>

theorem cached_failure_lost:
  "NewCloudWatchLogsHook (\<lambda>region. Inr ()) (\<lambda>cfg. flaky_client) [] ''app'' ''main''
       [WithBatchDuration 1000000000] world0
     = Some (Inr (race_hook [] None), demo_world)
   \<and> rtranclp move (started (race_hook [] None) demo_world) second_cached
   \<and> err (shared second_cached) = Some (ApiError ''second failure'')
   \<and> rtranclp move second_cached lost_failure
   \<and> err (shared lost_failure) = None
   \<and> goroutines lost_failure ! 3
        = Write_call ''b'' 0 (W_done (0, Some (ErrorString ''first failure'')))
   \<and> goroutines lost_failure ! 5 = Write_call ''c'' 0 (W_done (1, None))"
  using NewCloudWatchLogsHook_race
    rtranclp_trans [OF race_first_failure race_second_failure] race_failure_lost
  by (simp add: second_cached_def lost_failure_def race_hook_def)

end
